theory Spec2Isabelle
  imports Main
begin

section \<open>The BrainPlus interpreter (lib/brainplus.py)\<close>

text \<open>
  The interpreter is a Python class with mutable fields. The model is a record of those
  fields, passed explicitly: every method takes the engine and returns the engine it
  leaves behind. A Python exception does not destroy the engine object, so an outcome
  that raises still carries the engine as the exception found it.

  Python integers are unbounded, so every counter, offset and cell is an \<open>int\<close>.
  Comparisons between an integer and a non-number follow Python 3 (a \<open>TypeError\<close>).
\<close>

subsection \<open>Python values, exceptions and sequence indexing\<close>

datatype error =
  IndexError
| KeyError char
| NameError string
| TypeError

text \<open>
  The values a configuration slot of the engine can hold. \<open>PyFun f\<close> is a callable
  of the host: its \<open>k\<close>-th invocation (counted from 0) as input callback returns
  \<open>f k\<close>; what it is called with, as output or trace callback, is recorded in the
  engine's observation logs below. Host callables are taken to return normally and to
  leave the engine alone.
\<close>

datatype pyobj =
  is_None: PyNone
| PyInt int
| PyStr string
| PyFun "nat \<Rightarrow> int"

fun truthy :: "pyobj \<Rightarrow> bool" where
  "truthy PyNone = False"
| "truthy (PyInt n) = (n \<noteq> 0)"
| "truthy (PyStr s) = (s \<noteq> [])"
| "truthy (PyFun f) = True"

text \<open>\<open>xs[i]\<close>: a negative index counts from the end, anything else out of range raises.\<close>

definition getitem :: "'a list \<Rightarrow> int \<Rightarrow> 'a option" where
  "getitem xs i =
     (let n = int (length xs); j = (if i < 0 then n + i else i)
      in if 0 \<le> j \<and> j < n then Some (xs ! nat j) else None)"

text \<open>\<open>xs[i] = v\<close>, with the same index rule.\<close>

definition setitem :: "'a list \<Rightarrow> int \<Rightarrow> 'a \<Rightarrow> 'a list option" where
  "setitem xs i v =
     (let n = int (length xs); j = (if i < 0 then n + i else i)
      in if 0 \<le> j \<and> j < n then Some (xs[nat j := v]) else None)"

text \<open>
  \<open>s.find(c, start)\<close> for a one-character needle and \<open>start \<ge> 0\<close>: the lowest index
  at or after \<open>start\<close> that holds \<open>c\<close>, or \<open>-1\<close>.
\<close>

fun find_char :: "char \<Rightarrow> string \<Rightarrow> int \<Rightarrow> int" where
  "find_char c [] k = - 1"
| "find_char c (x # xs) k = (if x = c then k else find_char c xs (k + 1))"

definition str_find :: "string \<Rightarrow> char \<Rightarrow> nat \<Rightarrow> int" where
  "str_find s c start = find_char c (drop start s) (int start)"

subsection \<open>class Stack\<close>

text \<open>The stack is a Python list; its top is the last element.\<close>

definition Stack_push :: "int list \<Rightarrow> int \<Rightarrow> int list" where
  "Stack_push st thing = st @ [thing]"

definition Stack_pop :: "int list \<Rightarrow> (int \<times> int list) option" where
  "Stack_pop st = (case getitem st (- 1) of None \<Rightarrow> None | Some rv \<Rightarrow> Some (rv, butlast st))"

definition Stack_peek :: "int list \<Rightarrow> int option" where
  "Stack_peek st = getitem st (- 1)"

definition Stack_is_empty :: "int list \<Rightarrow> bool" where
  "Stack_is_empty st = (length st = 0)"

subsection \<open>class Interpreter: the engine\<close>

text \<open>
  The fields of \<open>Interpreter.__init__\<close>, followed by what the host observes: how many
  times the input callback was called, the values handed to the output callback, what
  the trace callback saw after each instruction (the instruction, the instruction
  pointer and the memory pointer), and the lines printed.
\<close>

record interpreter =
  source :: string
  functions' :: "int list"
  stack :: "int list"
  memory_pointer :: int
  instruction_pointer :: int
  memory :: "int list"
  input_function :: pyobj
  output_function :: pyobj
  on_execute :: pyobj
  cycle_limit :: pyobj
  cycle_count :: int
  need_to_exit :: bool
  inputs_read :: nat
  outputs :: "int list"
  executed :: "(char \<times> int \<times> int) list"
  printed :: "string list"

text \<open>The attributes that \<open>__init__\<close> sets once and nothing changes.\<close>

definition max_functions :: int where
  "max_functions = 26"

definition memory_size :: nat where
  "memory_size = 30000"

definition max_memory_value :: int where
  "max_memory_value = 255"

datatype outcome = Ok interpreter | Raise error interpreter

fun engine_of :: "outcome \<Rightarrow> interpreter" where
  "engine_of (Ok s) = s"
| "engine_of (Raise e s) = s"

fun raised :: "outcome \<Rightarrow> error option" where
  "raised (Ok s) = None"
| "raised (Raise e s) = Some e"

subsection \<open>find_functions\<close>

text \<open>
  The loop of \<open>find_functions\<close>: \<open>found\<close> is the position of the last \<open>@\<close> seen,
  \<open>acc\<close> the offsets appended so far.
\<close>

lemma find_char_bounds:
  "find_char c xs k = - 1 \<or> (k \<le> find_char c xs k \<and> find_char c xs k < k + int (length xs))"
  by (induction xs arbitrary: k) (auto, force+)

lemma str_find_bounds:
  "str_find s c start = - 1 \<or>
   (int start \<le> str_find s c start \<and> str_find s c start < int (length s))"
  using find_char_bounds [of c "drop start s" "int start"]
  by (auto simp: str_find_def)

function find_functions_loop :: "string \<Rightarrow> int \<Rightarrow> int list \<Rightarrow> int list" where
  "find_functions_loop src found acc =
     (if found \<ge> 0
      then find_functions_loop src (str_find src (CHR ''@'') (nat (found + 1))) (acc @ [found + 1])
      else acc)"
  by pat_completeness auto
termination
proof (relation "measure (\<lambda>(src, found, acc). if found < 0 then 0 else 1 + nat (int (length src) - found))")
  show "wf (measure (\<lambda>(src, found, acc). if found < 0 then 0 else 1 + nat (int (length src) - found)))"
    by simp
next
  fix src :: string and found :: int and acc :: "int list"
  assume "0 \<le> found"
  then show "((src, str_find src (CHR ''@'') (nat (found + 1)), acc @ [found + 1]), (src, found, acc))
    \<in> measure (\<lambda>(src, found, acc). if found < 0 then 0 else 1 + nat (int (length src) - found))"
    using str_find_bounds [of src "CHR ''@''" "nat (found + 1)"] by auto
qed

declare find_functions_loop.simps [simp del]

text \<open>
  \<open>find_functions\<close>. With more than \<open>max_functions\<close> offsets the source goes on
  to build the message of the exception it means to raise; the message reads
  \<open>len(functions)\<close>, a name that is not defined (the list is \<open>self.functions\<close>), so
  what is raised is Python's \<open>NameError\<close> for that name.
\<close>

definition find_functions :: "string \<Rightarrow> error + int list" where
  "find_functions src =
     (let fs = find_functions_loop src (str_find src (CHR ''@'') 0) []
      in if int (length fs) > max_functions then Inl (NameError ''functions'') else Inr fs)"

subsection \<open>The constructor and clone\<close>

definition Interpreter ::
  "string \<Rightarrow> pyobj \<Rightarrow> pyobj \<Rightarrow> pyobj \<Rightarrow> pyobj \<Rightarrow> error + interpreter" where
  "Interpreter src cycle_limit_arg input_arg output_arg on_execute_arg =
     (case find_functions src of
        Inl e \<Rightarrow> Inl e
      | Inr fs \<Rightarrow> Inr
          \<lparr> source = src, functions' = fs, stack = [], memory_pointer = 0,
            instruction_pointer = 0, memory = replicate memory_size 0,
            input_function = input_arg, output_function = output_arg,
            on_execute = on_execute_arg, cycle_limit = cycle_limit_arg,
            cycle_count = 0, need_to_exit = False,
            inputs_read = 0, outputs = [], executed = [], printed = [] \<rparr>)"

text \<open>
  A call \<open>Interpreter(src, *args)\<close>: the positional arguments fill the parameters
  \<open>cycle_limit\<close>, \<open>input_function\<close>, \<open>output_function\<close>, \<open>on_execute\<close> in this
  order, the rest keep their defaults (\<open>0\<close> and \<open>None\<close>).
\<close>

fun Interpreter_positional :: "string \<Rightarrow> pyobj list \<Rightarrow> error + interpreter" where
  "Interpreter_positional src [] = Interpreter src (PyInt 0) PyNone PyNone PyNone"
| "Interpreter_positional src [a] = Interpreter src a PyNone PyNone PyNone"
| "Interpreter_positional src [a, b] = Interpreter src a b PyNone PyNone"
| "Interpreter_positional src [a, b, c] = Interpreter src a b c PyNone"
| "Interpreter_positional src [a, b, c, d] = Interpreter src a b c d"
| "Interpreter_positional src (a # b # c # d # e # rest) = Inl TypeError"

text \<open>
  \<open>clone\<close>. An argument left at \<open>None\<close> is \<open>PyNone\<close> (for the source, \<open>None\<close>).
  \<open>kwargs\<close> is a dict, kept here as the list of its items in insertion order. The
  last line of the source is \<open>Interpreter(new_source, *kwargs)\<close>: unpacking a dict
  with one star iterates over its keys, so the positional arguments of the call are the
  names of the overrides, as strings.
\<close>

definition clone ::
  "interpreter \<Rightarrow> string option \<Rightarrow> pyobj \<Rightarrow> pyobj \<Rightarrow> pyobj \<Rightarrow> pyobj \<Rightarrow> error + interpreter" where
  "clone self source_arg cycle_limit_arg input_arg output_arg on_execute_arg =
     (let new_source = (case source_arg of None \<Rightarrow> source self | Some src \<Rightarrow> src);
          kwargs =
            (if \<not> is_None cycle_limit_arg then [(''cycle_limit'', cycle_limit_arg)] else []) @
            (if \<not> is_None input_arg then [(''input_function'', input_arg)] else []) @
            (if \<not> is_None output_arg then [(''output_function'', output_arg)] else []) @
            (if \<not> is_None on_execute_arg then [(''on_execute'', on_execute_arg)] else [])
      in Interpreter_positional new_source (map (\<lambda>(key, val). PyStr key) kwargs))"

subsection \<open>The instruction handlers\<close>

definition instr_print :: "interpreter \<Rightarrow> outcome" where
  "instr_print s =
     (if truthy (output_function s) then
        (case getitem (memory s) (memory_pointer s) of
           None \<Rightarrow> Raise IndexError s
         | Some v \<Rightarrow>
             (case output_function s of
                PyFun f \<Rightarrow> Ok (s\<lparr>outputs := outputs s @ [v],
                                 instruction_pointer := instruction_pointer s + 1\<rparr>)
              | _ \<Rightarrow> Raise TypeError s))
      else Ok (s\<lparr>instruction_pointer := instruction_pointer s + 1\<rparr>))"

definition instr_input :: "interpreter \<Rightarrow> outcome" where
  "instr_input s =
     (if truthy (input_function s) then
        (case input_function s of
           PyFun f \<Rightarrow>
             (let s1 = s\<lparr>inputs_read := Suc (inputs_read s)\<rparr>
              in case setitem (memory s1) (memory_pointer s1) (f (inputs_read s)) of
                   None \<Rightarrow> Raise IndexError s1
                 | Some m \<Rightarrow> Ok (s1\<lparr>memory := m,
                                    instruction_pointer := instruction_pointer s1 + 1\<rparr>))
         | _ \<Rightarrow> Raise TypeError s)
      else Ok (s\<lparr>instruction_pointer := instruction_pointer s + 1\<rparr>))"

definition instr_inc_memory_pointer :: "interpreter \<Rightarrow> outcome" where
  "instr_inc_memory_pointer s =
     (let s1 = (if memory_pointer s < int (length (memory s)) - 1
                then s\<lparr>memory_pointer := memory_pointer s + 1\<rparr> else s)
      in Ok (s1\<lparr>instruction_pointer := instruction_pointer s1 + 1\<rparr>))"

definition instr_dec_memory_pointer :: "interpreter \<Rightarrow> outcome" where
  "instr_dec_memory_pointer s =
     (let s1 = s\<lparr>memory_pointer := memory_pointer s - 1\<rparr>;
          s2 = (if memory_pointer s1 < 0 then s1\<lparr>memory_pointer := 0\<rparr> else s1)
      in Ok (s2\<lparr>instruction_pointer := instruction_pointer s2 + 1\<rparr>))"

definition instr_inc_memory :: "interpreter \<Rightarrow> outcome" where
  "instr_inc_memory s =
     (case getitem (memory s) (memory_pointer s) of
        None \<Rightarrow> Raise IndexError s
      | Some v \<Rightarrow>
          (case setitem (memory s) (memory_pointer s)
                  (if v < max_memory_value then v + 1 else 0) of
             None \<Rightarrow> Raise IndexError s
           | Some m \<Rightarrow> Ok (s\<lparr>memory := m,
                             instruction_pointer := instruction_pointer s + 1\<rparr>)))"

definition instr_dec_memory :: "interpreter \<Rightarrow> outcome" where
  "instr_dec_memory s =
     (case getitem (memory s) (memory_pointer s) of
        None \<Rightarrow> Raise IndexError s
      | Some v \<Rightarrow>
          (case setitem (memory s) (memory_pointer s)
                  (if v > 0 then v - 1 else max_memory_value) of
             None \<Rightarrow> Raise IndexError s
           | Some m \<Rightarrow> Ok (s\<lparr>memory := m,
                             instruction_pointer := instruction_pointer s + 1\<rparr>)))"

text \<open>
  The loop of \<open>skip_to_loop_end\<close>. It moves the instruction pointer first and reads
  the source there afterwards; a read at \<open>len(source)\<close> raises.
\<close>

function skip_to_loop_end_loop :: "int \<Rightarrow> interpreter \<Rightarrow> outcome" where
  "skip_to_loop_end_loop bracket_cnt s =
     (if bracket_cnt > 0 \<and> instruction_pointer s < int (length (source s)) then
        (let s1 = s\<lparr>instruction_pointer := instruction_pointer s + 1\<rparr>
         in case getitem (source s1) (instruction_pointer s1) of
              None \<Rightarrow> Raise IndexError s1
            | Some instruction \<Rightarrow>
                skip_to_loop_end_loop
                  (if instruction = CHR ''['' then bracket_cnt + 1
                   else if instruction = CHR '']'' then bracket_cnt - 1
                   else bracket_cnt) s1)
      else Ok s)"
  by pat_completeness auto
termination
  by (relation "measure (\<lambda>(bracket_cnt, s). nat (int (length (source s)) - instruction_pointer s))")
     auto

declare skip_to_loop_end_loop.simps [simp del]

definition skip_to_loop_end :: "interpreter \<Rightarrow> outcome" where
  "skip_to_loop_end s = skip_to_loop_end_loop 1 s"

definition instr_loop_start :: "interpreter \<Rightarrow> outcome" where
  "instr_loop_start s =
     (case getitem (memory s) (memory_pointer s) of
        None \<Rightarrow> Raise IndexError s
      | Some v \<Rightarrow>
          if v = 0 then
            (case skip_to_loop_end s of
               Raise e s1 \<Rightarrow> Raise e s1
             | Ok s1 \<Rightarrow> Ok (s1\<lparr>instruction_pointer := instruction_pointer s1 + 1\<rparr>))
          else Ok (s\<lparr>stack := Stack_push (stack s) (instruction_pointer s),
                     instruction_pointer := instruction_pointer s + 1\<rparr>))"

definition instr_loop_end :: "interpreter \<Rightarrow> outcome" where
  "instr_loop_end s =
     (case Stack_pop (stack s) of
        None \<Rightarrow> Raise IndexError s
      | Some (instr_ptr, st) \<Rightarrow>
          (let s1 = s\<lparr>stack := st\<rparr>
           in case getitem (memory s1) (memory_pointer s1) of
                None \<Rightarrow> Raise IndexError s1
              | Some v \<Rightarrow>
                  if v \<noteq> 0 then Ok (s1\<lparr>instruction_pointer := instr_ptr\<rparr>)
                  else Ok (s1\<lparr>instruction_pointer := instruction_pointer s1 + 1\<rparr>)))"

definition instr_function_call :: "char \<Rightarrow> interpreter \<Rightarrow> outcome" where
  "instr_function_call instruction s =
     (let function_no = int (of_char instruction) - int (of_char (CHR ''a''))
      in if function_no < int (length (functions' s)) then
           (let s1 = s\<lparr>stack := Stack_push (stack s) (instruction_pointer s + 1)\<rparr>
            in case getitem (functions' s1) function_no of
                 None \<Rightarrow> Raise IndexError s1
               | Some start \<Rightarrow> Ok (s1\<lparr>instruction_pointer := start\<rparr>))
         else Ok (s\<lparr>instruction_pointer := instruction_pointer s + 1\<rparr>))"

definition instr_return :: "interpreter \<Rightarrow> outcome" where
  "instr_return s =
     (if Stack_is_empty (stack s) then Ok (s\<lparr>need_to_exit := True\<rparr>)
      else (case Stack_pop (stack s) of
              None \<Rightarrow> Raise IndexError s
            | Some (addr, st) \<Rightarrow> Ok (s\<lparr>stack := st, instruction_pointer := addr\<rparr>)))"

subsection \<open>Dispatch and the run loop\<close>

definition is_call_letter :: "char \<Rightarrow> bool" where
  "is_call_letter c =
     ((of_char (CHR ''a'') :: nat) \<le> of_char c \<and> (of_char c :: nat) \<le> of_char (CHR ''z''))"

text \<open>
  \<open>instruction_dict\<close>: every handler is called with the keyword argument
  \<open>instruction\<close>; only the function call reads it.
\<close>

definition instruction_dict :: "char \<Rightarrow> (char \<Rightarrow> interpreter \<Rightarrow> outcome) option" where
  "instruction_dict c =
     (if c = CHR ''.'' then Some (\<lambda>instruction. instr_print)
      else if c = CHR '','' then Some (\<lambda>instruction. instr_input)
      else if c = CHR ''>'' then Some (\<lambda>instruction. instr_inc_memory_pointer)
      else if c = CHR ''<'' then Some (\<lambda>instruction. instr_dec_memory_pointer)
      else if c = CHR ''+'' then Some (\<lambda>instruction. instr_inc_memory)
      else if c = CHR ''-'' then Some (\<lambda>instruction. instr_dec_memory)
      else if c = CHR ''['' then Some (\<lambda>instruction. instr_loop_start)
      else if c = CHR '']'' then Some (\<lambda>instruction. instr_loop_end)
      else if c = CHR ''@'' then Some (\<lambda>instruction. instr_return)
      else if is_call_letter c then Some instr_function_call
      else None)"

text \<open>\<open>instruction_set\<close>: the keys of \<open>instruction_dict\<close>, in the order they are entered.\<close>

definition instruction_set :: string where
  "instruction_set = ''.,><+-[]@abcdefghijklmnopqrstuvwxyz''"

definition execute_instruction :: "char \<Rightarrow> interpreter \<Rightarrow> outcome" where
  "execute_instruction instruction s =
     (case instruction_dict instruction of
        None \<Rightarrow> Raise (KeyError instruction) s
      | Some handler \<Rightarrow>
          (case handler instruction s of
             Raise e s1 \<Rightarrow> Raise e s1
           | Ok s1 \<Rightarrow>
               if truthy (on_execute s1) then
                 (case on_execute s1 of
                    PyFun f \<Rightarrow> Ok (s1\<lparr>executed := executed s1 @
                        [(instruction, instruction_pointer s1, memory_pointer s1)]\<rparr>)
                  | _ \<Rightarrow> Raise TypeError s1)
               else Ok s1))"

text \<open>
  The test \<open>self.cycle_limit != 0 and self.cycle_count >= self.cycle_limit\<close>. A limit
  that is not a number differs from \<open>0\<close>, and comparing the count with it raises.
\<close>

definition cycle_limit_reached :: "interpreter \<Rightarrow> error + bool" where
  "cycle_limit_reached s =
     (case cycle_limit s of
        PyInt n \<Rightarrow> Inr (n \<noteq> 0 \<and> cycle_count s \<ge> n)
      | _ \<Rightarrow> Inl TypeError)"

text \<open>
  \<open>run\<close>. The loop need not end (no cycle limit, a program that loops), so the model
  is a partial function: \<open>None\<close> stands for a call that never returns.
\<close>

partial_function (option) run :: "interpreter \<Rightarrow> outcome option" where
  "run s =
     (if instruction_pointer s < int (length (source s)) \<and> \<not> need_to_exit s then
        (case cycle_limit_reached s of
           Inl e \<Rightarrow> Some (Raise e s)
         | Inr reached \<Rightarrow>
             if reached
             then Some (Ok (s\<lparr>printed := printed s @ [''Ending early due to cycle limit'']\<rparr>))
             else
               (case getitem (source s) (instruction_pointer s) of
                  None \<Rightarrow> Some (Raise IndexError s)
                | Some instruction \<Rightarrow>
                    (case execute_instruction instruction s of
                       Raise e s1 \<Rightarrow> Some (Raise e s1)
                     | Ok s1 \<Rightarrow> run (s1\<lparr>cycle_count := cycle_count s1 + 1\<rparr>))))
      else Some (Ok s))"

declare run.simps [code]

section \<open>Notions used in the properties\<close>

text \<open>
  An engine in the middle of a run, for the examples below: the fields are those the
  constructor sets for a source without callbacks and without cycle limit, except for
  the function table, the instruction pointer, the control stack and the first cell,
  which are given.
\<close>

definition example_engine :: "string \<Rightarrow> int list \<Rightarrow> int \<Rightarrow> int list \<Rightarrow> int \<Rightarrow> interpreter" where
  "example_engine src fs ip st cell =
     \<lparr> source = src, functions' = fs, stack = st, memory_pointer = 0,
       instruction_pointer = ip, memory = (replicate memory_size 0)[0 := cell],
       input_function = PyNone, output_function = PyNone,
       on_execute = PyNone, cycle_limit = PyInt 0,
       cycle_count = 0, need_to_exit = False,
       inputs_read = 0, outputs = [], executed = [], printed = [] \<rparr>"

text \<open>
  What no instruction touches: the program, the callbacks, the cycle limit and count,
  the printed lines and the size of the tape.
\<close>

definition same_settings :: "interpreter \<Rightarrow> interpreter \<Rightarrow> bool" where
  "same_settings s s' =
     (source s' = source s \<and> functions' s' = functions' s \<and>
      input_function s' = input_function s \<and> output_function s' = output_function s \<and>
      on_execute s' = on_execute s \<and> cycle_limit s' = cycle_limit s \<and>
      cycle_count s' = cycle_count s \<and> printed s' = printed s \<and>
      length (memory s') = length (memory s))"

text \<open>
  The invariant of the tape: the memory pointer is an index of the tape, and every cell
  holds a value from 0 to 255.
\<close>

definition tape_invariant :: "interpreter \<Rightarrow> bool" where
  "tape_invariant s =
     (0 \<le> memory_pointer s \<and> memory_pointer s \<le> int (length (memory s)) - 1 \<and>
      list_all (\<lambda>v. 0 \<le> v \<and> v \<le> 255) (memory s))"

text \<open>
  Matching brackets, stated without the interpreter. The depth of a piece of source is
  the number of \<open>[\<close> in it minus the number of \<open>]\<close>. The \<open>]\<close> at \<open>j\<close> matches the
  \<open>[\<close> at \<open>i\<close> when the text between the two has depth 0 and none of its prefixes
  closes more loops than it has opened.
\<close>

fun bracket_depth :: "string \<Rightarrow> int" where
  "bracket_depth [] = 0"
| "bracket_depth (c # cs) =
     (if c = CHR ''['' then 1 else if c = CHR '']'' then - 1 else 0) + bracket_depth cs"

definition matching_bracket :: "string \<Rightarrow> nat \<Rightarrow> nat \<Rightarrow> bool" where
  "matching_bracket src i j =
     (i < j \<and> j < length src \<and> src ! i = CHR ''['' \<and> src ! j = CHR '']'' \<and>
      bracket_depth (take (j - i - 1) (drop (i + 1) src)) = 0 \<and>
      (\<forall>m \<in> {..j - i - 1}. 0 \<le> bracket_depth (take m (drop (i + 1) src))))"

text \<open>
  The offsets immediately after each \<open>@\<close> of a source at or after \<open>start\<close>, in
  source order.
\<close>

definition delimiter_offsets :: "string \<Rightarrow> nat \<Rightarrow> int list" where
  "delimiter_offsets src start =
     map (\<lambda>i. int i + 1) (filter (\<lambda>i. src ! i = CHR ''@'') [start..<length src])"

section \<open>Properties\<close>

subsection \<open>Indexing and the stack\<close>

lemma getitem_in_range:
  "0 \<le> i \<Longrightarrow> i < int (length xs) \<Longrightarrow> getitem xs i = Some (xs ! nat i)"
  by (simp add: getitem_def)

lemma getitem_last:
  "getitem xs (- 1) = (if xs = [] then None else Some (last xs))"
  by (cases xs rule: rev_cases) (auto simp: getitem_def nth_append)

lemma Stack_pop_eq:
  "Stack_pop st = (if st = [] then None else Some (last st, butlast st))"
  by (simp add: Stack_pop_def getitem_last)

lemma Stack_is_empty_iff: "Stack_is_empty st = (st = [])"
  by (simp add: Stack_is_empty_def)

subsection \<open>Loop end\<close>

lemma instruction_dict_loop_end: "instruction_dict (CHR '']'') = Some (\<lambda>instruction. instr_loop_end)"
  by (simp add: instruction_dict_def)

text \<open>
  Claim C2. Executing \<open>]\<close> pops an address from the control stack. On an empty stack
  the pop raises (Python's \<open>IndexError\<close>, the engine left as it was): a fault, not a
  fall-through, and one that ends \<open>run\<close> when it fetches such a \<open>]\<close>. On a non-empty
  stack, with the memory pointer on the tape: if the
  current cell is not zero the instruction pointer becomes the popped address, otherwise
  it moves on by one; in both cases the address is gone from the stack.
\<close>

theorem instr_loop_end_pops:
  "(stack s = [] \<longrightarrow> instr_loop_end s = Raise IndexError s) \<and>
   (stack s = [] \<and> 0 \<le> instruction_pointer s \<and> instruction_pointer s < int (length (source s)) \<and>
      source s ! nat (instruction_pointer s) = CHR '']'' \<and>
      \<not> need_to_exit s \<and> cycle_limit_reached s = Inr False \<longrightarrow>
      run s = Some (Raise IndexError s)) \<and>
   (stack s \<noteq> [] \<and> 0 \<le> memory_pointer s \<and> memory_pointer s < int (length (memory s)) \<and>
      memory s ! nat (memory_pointer s) \<noteq> 0 \<longrightarrow>
      instr_loop_end s =
        Ok (s\<lparr>stack := butlast (stack s), instruction_pointer := last (stack s)\<rparr>)) \<and>
   (stack s \<noteq> [] \<and> 0 \<le> memory_pointer s \<and> memory_pointer s < int (length (memory s)) \<and>
      memory s ! nat (memory_pointer s) = 0 \<longrightarrow>
      instr_loop_end s =
        Ok (s\<lparr>stack := butlast (stack s), instruction_pointer := instruction_pointer s + 1\<rparr>))"
proof -
  have empty: "instr_loop_end s = Raise IndexError s" if "stack s = []"
    using that by (simp add: instr_loop_end_def Stack_pop_eq)
  have fatal: "run s = Some (Raise IndexError s)"
    if "stack s = []" and "0 \<le> instruction_pointer s"
      and "instruction_pointer s < int (length (source s))"
      and "source s ! nat (instruction_pointer s) = CHR '']''"
      and "\<not> need_to_exit s" and "cycle_limit_reached s = Inr False"
  proof -
    have "execute_instruction (CHR '']'') s = Raise IndexError s"
      by (simp add: execute_instruction_def instruction_dict_loop_end empty [OF that(1)])
    then show ?thesis
      using that by (subst run.simps) (simp add: getitem_in_range)
  qed
  have jump: "instr_loop_end s =
        Ok (s\<lparr>stack := butlast (stack s), instruction_pointer := last (stack s)\<rparr>)"
    if "stack s \<noteq> []" and "0 \<le> memory_pointer s" and "memory_pointer s < int (length (memory s))"
      and "memory s ! nat (memory_pointer s) \<noteq> 0"
    using that by (simp add: instr_loop_end_def Stack_pop_eq getitem_in_range)
  have onward: "instr_loop_end s =
        Ok (s\<lparr>stack := butlast (stack s), instruction_pointer := instruction_pointer s + 1\<rparr>)"
    if "stack s \<noteq> []" and "0 \<le> memory_pointer s" and "memory_pointer s < int (length (memory s))"
      and "memory s ! nat (memory_pointer s) = 0"
    using that by (simp add: instr_loop_end_def Stack_pop_eq getitem_in_range)
  show ?thesis
    using empty fatal jump onward by blast
qed

text \<open>
  The three cases at work: a stray \<open>]\<close> in \<open>+]\<close>; the \<open>]\<close> of \<open>+[]\<close> with the cell at
  1, which goes back to the \<open>[\<close> at offset 1; the \<open>]\<close> of \<open>+[-]\<close> once the cell is 0,
  which falls through to offset 4.
\<close>

theorem instr_loop_end_pops_witness:
  "instr_loop_end (example_engine ''+]'' [] 1 [] 1) = Raise IndexError (example_engine ''+]'' [] 1 [] 1) \<and>
   run (example_engine ''+]'' [] 1 [] 1) = Some (Raise IndexError (example_engine ''+]'' [] 1 [] 1)) \<and>
   instr_loop_end (example_engine ''+[]'' [] 2 [1] 1) = Ok (example_engine ''+[]'' [] 1 [] 1) \<and>
   instr_loop_end (example_engine ''+[-]'' [] 3 [1] 0) = Ok (example_engine ''+[-]'' [] 4 [] 0)"
  using instr_loop_end_pops [of "example_engine ''+]'' [] 1 [] 1"]
    instr_loop_end_pops [of "example_engine ''+[]'' [] 2 [1] 1"]
    instr_loop_end_pops [of "example_engine ''+[-]'' [] 3 [1] 0"]
  by (simp add: example_engine_def memory_size_def cycle_limit_reached_def)

subsection \<open>Function calls\<close>

lemma call_letter_not_symbol:
  "is_call_letter c \<Longrightarrow> c \<notin> set ''.,><+-[]@''"
  unfolding is_call_letter_def by (rule notI) (elim conjE, simp, elim disjE, simp_all)

lemma instruction_dict_letter:
  "is_call_letter c \<Longrightarrow> instruction_dict c = Some instr_function_call"
  using call_letter_not_symbol [of c] by (simp add: instruction_dict_def)

lemma function_no_nat:
  assumes "is_call_letter c"
  shows "int (of_char c) - int (of_char (CHR ''a'')) = int (of_char c - of_char (CHR ''a''))"
  using assms by (simp add: is_call_letter_def)

lemma instr_function_call_at:
  assumes "int (of_char c) - int (of_char (CHR ''a'')) = int k"
  shows "instr_function_call c s =
    (if k < length (functions' s)
     then Ok (s\<lparr>stack := stack s @ [instruction_pointer s + 1],
               instruction_pointer := functions' s ! k\<rparr>)
     else Ok (s\<lparr>instruction_pointer := instruction_pointer s + 1\<rparr>))"
  unfolding instr_function_call_def assms Let_def
  by (simp add: Stack_push_def getitem_in_range)

lemma instr_function_call_eq:
  assumes "is_call_letter c"
  shows "instr_function_call c s =
    (if (of_char c - of_char (CHR ''a'') :: nat) < length (functions' s)
     then Ok (s\<lparr>stack := stack s @ [instruction_pointer s + 1],
               instruction_pointer := functions' s ! (of_char c - of_char (CHR ''a''))\<rparr>)
     else Ok (s\<lparr>instruction_pointer := instruction_pointer s + 1\<rparr>))"
  by (rule instr_function_call_at [OF function_no_nat [OF assms]])

text \<open>
  Claim C3. A letter \<open>a\<close>..\<open>z\<close> is dispatched to the function call, with function
  index the letter minus \<open>a\<close>. If the index is below the number of declared functions,
  the call pushes the instruction pointer plus one and jumps to the start offset of that
  function. Otherwise the instruction only moves the instruction pointer on by one:
  tape, memory pointer and control stack stay, and nothing is raised.
\<close>

theorem instr_function_call_spec:
  assumes "is_call_letter c"
  shows "instruction_dict c = Some instr_function_call \<and>
    ((of_char c - of_char (CHR ''a'') :: nat) < length (functions' s) \<longrightarrow>
       instr_function_call c s =
         Ok (s\<lparr>stack := stack s @ [instruction_pointer s + 1],
               instruction_pointer := functions' s ! (of_char c - of_char (CHR ''a''))\<rparr>)) \<and>
    (length (functions' s) \<le> (of_char c - of_char (CHR ''a'') :: nat) \<longrightarrow>
       instr_function_call c s = Ok (s\<lparr>instruction_pointer := instruction_pointer s + 1\<rparr>))"
proof (intro conjI impI)
  show "instruction_dict c = Some instr_function_call"
    by (rule instruction_dict_letter [OF assms])
next
  assume "(of_char c - of_char (CHR ''a'') :: nat) < length (functions' s)"
  then show "instr_function_call c s =
         Ok (s\<lparr>stack := stack s @ [instruction_pointer s + 1],
               instruction_pointer := functions' s ! (of_char c - of_char (CHR ''a''))\<rparr>)"
    by (simp only: instr_function_call_eq [OF assms] if_True)
next
  assume "length (functions' s) \<le> (of_char c - of_char (CHR ''a'') :: nat)"
  then have "\<not> (of_char c - of_char (CHR ''a'') :: nat) < length (functions' s)"
    by (simp only: linorder_not_less)
  then show "instr_function_call c s = Ok (s\<lparr>instruction_pointer := instruction_pointer s + 1\<rparr>)"
    by (simp only: instr_function_call_eq [OF assms] if_False)
qed

text \<open>
  In \<open>ab@+\<close> one function is declared, at offset 3: \<open>a\<close> at offset 0 calls it and leaves
  the return address 1 on the stack, \<open>b\<close> at offset 1 is skipped.
\<close>

theorem instr_function_call_spec_witness:
  "is_call_letter (CHR ''a'') \<and> is_call_letter (CHR ''b'') \<and>
   instruction_dict (CHR ''a'') = Some instr_function_call \<and>
   instr_function_call (CHR ''a'') (example_engine ''ab@+'' [3] 0 [] 0) =
     Ok (example_engine ''ab@+'' [3] 3 [1] 0) \<and>
   instr_function_call (CHR ''b'') (example_engine ''ab@+'' [3] 1 [] 0) =
     Ok (example_engine ''ab@+'' [3] 2 [] 0)"
proof -
  have a: "is_call_letter (CHR ''a'')" and b: "is_call_letter (CHR ''b'')"
    by (simp_all add: is_call_letter_def)
  show ?thesis
    using a b instr_function_call_spec [OF a, of "example_engine ''ab@+'' [3] 0 [] 0"]
      instr_function_call_spec [OF b, of "example_engine ''ab@+'' [3] 1 [] 0"]
    by (simp add: example_engine_def)
qed

subsection \<open>The halt flag\<close>

lemma instr_return_eq:
  "instr_return s =
     (if stack s = [] then Ok (s\<lparr>need_to_exit := True\<rparr>)
      else Ok (s\<lparr>stack := butlast (stack s), instruction_pointer := last (stack s)\<rparr>))"
  by (simp add: instr_return_def Stack_is_empty_iff Stack_pop_eq)

lemma instr_print_flag: "need_to_exit (engine_of (instr_print s)) = need_to_exit s"
  by (simp add: instr_print_def split: option.split pyobj.split)

lemma instr_input_flag: "need_to_exit (engine_of (instr_input s)) = need_to_exit s"
  by (simp add: instr_input_def Let_def split: option.split pyobj.split)

lemma instr_inc_memory_pointer_flag:
  "need_to_exit (engine_of (instr_inc_memory_pointer s)) = need_to_exit s"
  by (simp add: instr_inc_memory_pointer_def Let_def)

lemma instr_dec_memory_pointer_flag:
  "need_to_exit (engine_of (instr_dec_memory_pointer s)) = need_to_exit s"
  by (simp add: instr_dec_memory_pointer_def Let_def)

lemma instr_inc_memory_flag: "need_to_exit (engine_of (instr_inc_memory s)) = need_to_exit s"
  by (simp add: instr_inc_memory_def split: option.split)

lemma instr_dec_memory_flag: "need_to_exit (engine_of (instr_dec_memory s)) = need_to_exit s"
  by (simp add: instr_dec_memory_def split: option.split)

lemma skip_to_loop_end_loop_flag:
  "need_to_exit (engine_of (skip_to_loop_end_loop n s)) = need_to_exit s"
proof (induction n s rule: skip_to_loop_end_loop.induct)
  case (1 bracket_cnt s)
  show ?case
    by (subst skip_to_loop_end_loop.simps) (simp add: Let_def "1.IH" split: option.split)
qed

lemma instr_loop_start_flag: "need_to_exit (engine_of (instr_loop_start s)) = need_to_exit s"
  using skip_to_loop_end_loop_flag [of 1 s]
  by (cases "skip_to_loop_end_loop 1 s")
     (simp_all add: instr_loop_start_def skip_to_loop_end_def split: option.split)

lemma instr_loop_end_flag: "need_to_exit (engine_of (instr_loop_end s)) = need_to_exit s"
  by (simp add: instr_loop_end_def Let_def split: option.split prod.split)

lemma instr_function_call_flag:
  "need_to_exit (engine_of (instr_function_call c s)) = need_to_exit s"
  unfolding instr_function_call_def Let_def
  by (simp split: option.split if_split)

lemma instr_return_flag:
  "need_to_exit (engine_of (instr_return s)) = (need_to_exit s \<or> stack s = [])"
  by (simp add: instr_return_eq)


lemma handler_flag:
  assumes "instruction_dict c = Some h"
  shows "need_to_exit (engine_of (h c s)) = (need_to_exit s \<or> (c = CHR ''@'' \<and> stack s = []))"
proof -
  consider "c = CHR ''.''" | "c = CHR '',''" | "c = CHR ''>''" | "c = CHR ''<''" | "c = CHR ''+''"
    | "c = CHR ''-''" | "c = CHR ''[''" | "c = CHR '']''" | "c = CHR ''@''"
    | "c \<notin> set ''.,><+-[]@''" "is_call_letter c"
    using assms by (auto simp: instruction_dict_def split: if_splits)
  then show ?thesis
  proof cases
    case 10
    then show ?thesis
      using assms by (simp add: instruction_dict_def instr_function_call_flag)
  qed (use assms in \<open>auto simp: instruction_dict_def instr_print_flag instr_input_flag
        instr_inc_memory_pointer_flag instr_dec_memory_pointer_flag instr_inc_memory_flag
        instr_dec_memory_flag instr_loop_start_flag instr_loop_end_flag instr_return_flag\<close>)
qed

lemma execute_instruction_flag:
  "need_to_exit (engine_of (execute_instruction c s)) =
     (need_to_exit s \<or> (instruction_dict c \<noteq> None \<and> c = CHR ''@'' \<and> stack s = []))"
proof (cases "instruction_dict c")
  case None
  then show ?thesis by (simp add: execute_instruction_def)
next
  case (Some h)
  show ?thesis
    using handler_flag [OF Some, of s]
    by (cases "h c s") (simp_all add: execute_instruction_def Some split: pyobj.split)
qed


lemma Interpreter_flag: "Interpreter src a b c d = Inr s0 \<Longrightarrow> \<not> need_to_exit s0"
  by (auto simp: Interpreter_def split: sum.splits)

text \<open>
  Claim C4. Executing \<open>@\<close> on an empty control stack sets the halt flag; on a non-empty
  stack it pops one address into the instruction pointer and leaves the flag alone. The
  tape and the memory pointer are the same afterwards in both cases. No other way sets
  the flag: the constructor clears it, and an instruction after which the flag is set,
  when it was not before, is \<open>@\<close> on an empty stack.
\<close>

theorem instr_return_spec:
  "(stack s = [] \<longrightarrow> instr_return s = Ok (s\<lparr>need_to_exit := True\<rparr>)) \<and>
   (stack s \<noteq> [] \<longrightarrow>
      instr_return s =
        Ok (s\<lparr>stack := butlast (stack s), instruction_pointer := last (stack s)\<rparr>)) \<and>
   memory (engine_of (instr_return s)) = memory s \<and>
   memory_pointer (engine_of (instr_return s)) = memory_pointer s \<and>
   (need_to_exit (engine_of (execute_instruction c s)) \<and> \<not> need_to_exit s \<longrightarrow>
      c = CHR ''@'' \<and> stack s = []) \<and>
   (Interpreter src a1 a2 a3 a4 = Inr s0 \<longrightarrow> \<not> need_to_exit s0)"
  using Interpreter_flag [of src a1 a2 a3 a4 s0]
  by (auto simp: instr_return_eq execute_instruction_flag)

text \<open>
  The \<open>@\<close> of \<open>+@\<close> at top level halts; the \<open>@\<close> that ends the first function of
  \<open>a@+@\<close>, called from offset 0, returns to offset 1.
\<close>

theorem instr_return_spec_witness:
  "instr_return (example_engine ''+@'' [2] 1 [] 1) =
     Ok ((example_engine ''+@'' [2] 1 [] 1)\<lparr>need_to_exit := True\<rparr>) \<and>
   instr_return (example_engine ''a@+@'' [2, 4] 3 [1] 1) = Ok (example_engine ''a@+@'' [2, 4] 1 [] 1) \<and>
   need_to_exit (engine_of (execute_instruction (CHR ''@'') (example_engine ''+@'' [2] 1 [] 1))) \<and>
   \<not> need_to_exit (example_engine ''+@'' [2] 1 [] 1) \<and>
   stack (example_engine ''+@'' [2] 1 [] 1) = []"
proof -
  have run_at: "need_to_exit (engine_of (execute_instruction (CHR ''@'') (example_engine ''+@'' [2] 1 [] 1)))"
    by (simp add: execute_instruction_def instruction_dict_def instr_return_eq example_engine_def)
  show ?thesis
    using run_at
      instr_return_spec [of "example_engine ''+@'' [2] 1 [] 1" "CHR ''@''"]
      instr_return_spec [of "example_engine ''a@+@'' [2, 4] 3 [1] 1" "CHR ''@''"]
    by (simp add: example_engine_def)
qed

subsection \<open>Unknown instructions\<close>

lemma call_letter_range:
  assumes "is_call_letter c"
  shows "c \<in> set ''abcdefghijklmnopqrstuvwxyz''"
proof -
  have "97 \<le> (of_char c :: nat) \<and> (of_char c :: nat) \<le> 122"
    using assms by (simp add: is_call_letter_def)
  then have "(of_char c :: nat) \<in> {97..<123}"
    by simp
  then have "(of_char c :: nat) \<in> set [97..<123]"
    by (simp only: set_upt)
  then have "char_of (of_char c :: nat) \<in> char_of ` set [97..<123 :: nat]"
    by (rule imageI)
  then have "c \<in> char_of ` set [97..<123 :: nat]"
    by simp
  also have "char_of ` set [97..<123 :: nat] = set (map char_of [97..<123 :: nat])"
    by simp
  also have "map char_of [97..<123 :: nat] = ''abcdefghijklmnopqrstuvwxyz''"
    by code_simp
  finally show ?thesis .
qed

lemma instruction_dict_None:
  assumes "c \<notin> set instruction_set"
  shows "instruction_dict c = None"
proof -
  have "\<not> is_call_letter c"
    using assms call_letter_range [of c] by (auto simp: instruction_set_def)
  moreover have "c \<notin> set ''.,><+-[]@''"
    using assms by (simp add: instruction_set_def)
  ultimately show ?thesis
    by (simp add: instruction_dict_def)
qed

text \<open>
  Claim C8. A character outside the instruction set has no handler: dispatching it
  raises \<open>KeyError\<close> with that character, before any handler or trace callback runs.
  When \<open>run\<close> fetches such a character the run ends there with that fault, and the
  engine stays as it was: no further instruction is executed, the cycle count does not
  move, and the instruction pointer still holds the offset of the offending character,
  where the host can read it.
\<close>

theorem unknown_instruction_fault:
  assumes "c \<notin> set instruction_set"
  shows "execute_instruction c s = Raise (KeyError c) s \<and>
    (0 \<le> instruction_pointer s \<and> instruction_pointer s < int (length (source s)) \<and>
     source s ! nat (instruction_pointer s) = c \<and>
     \<not> need_to_exit s \<and> cycle_limit_reached s = Inr False \<longrightarrow>
       run s = Some (Raise (KeyError c) s))"
proof -
  have ex: "execute_instruction c s = Raise (KeyError c) s"
    by (simp add: execute_instruction_def instruction_dict_None [OF assms])
  show ?thesis
    by (subst run.simps) (simp add: ex getitem_in_range)
qed

text \<open>The \<open>#\<close> at offset 1 of \<open>+#+\<close>.\<close>

theorem unknown_instruction_fault_witness:
  "CHR ''#'' \<notin> set instruction_set \<and>
   execute_instruction (CHR ''#'') (example_engine ''+#+'' [] 1 [] 1) =
     Raise (KeyError (CHR ''#'')) (example_engine ''+#+'' [] 1 [] 1) \<and>
   run (example_engine ''+#+'' [] 1 [] 1) =
     Some (Raise (KeyError (CHR ''#'')) (example_engine ''+#+'' [] 1 [] 1)) \<and>
   source (example_engine ''+#+'' [] 1 [] 1) ! nat (instruction_pointer (example_engine ''+#+'' [] 1 [] 1)) = CHR ''#''"
proof -
  have h: "CHR ''#'' \<notin> set instruction_set"
    by (simp add: instruction_set_def)
  show ?thesis
    using h unknown_instruction_fault [OF h, of "example_engine ''+#+'' [] 1 [] 1"]
    by (simp add: example_engine_def cycle_limit_reached_def)
qed

text \<open>
  The fault itself holds the character only. Run on \<open>#\<close> and on \<open>+#\<close>, the engine
  raises the same \<open>KeyError\<close>, while the offending character sits at offset 0 in one
  source and at offset 1 in the other: the offset is to be read from the engine.
\<close>

theorem unknown_instruction_offset_counterexample:
  "map_option raised (run (example_engine ''#'' [] 0 [] 0)) = Some (Some (KeyError (CHR ''#''))) \<and>
   map_option raised (run (example_engine ''+#'' [] 0 [] 0)) = Some (Some (KeyError (CHR ''#''))) \<and>
   map_option (\<lambda>r. instruction_pointer (engine_of r)) (run (example_engine ''#'' [] 0 [] 0)) = Some 0 \<and>
   map_option (\<lambda>r. instruction_pointer (engine_of r)) (run (example_engine ''+#'' [] 0 [] 0)) = Some 1"
  by (simp add: run.simps execute_instruction_def instruction_dict_def is_call_letter_def
      instr_inc_memory_def getitem_def setitem_def cycle_limit_reached_def example_engine_def
      memory_size_def max_memory_value_def)

subsection \<open>clone\<close>

lemma find_functions_plus: "find_functions ''+'' = Inr []"
  by code_simp

text \<open>
  Claim C5. \<open>clone\<close> is meant to hand each supplied override to the new engine. It
  builds the dict \<open>kwargs\<close> of the overrides and then calls
  \<open>Interpreter(new_source, *kwargs)\<close>: the single star passes the keys of the dict as
  positional arguments. For the engine of \<open>+\<close>: \<open>clone(cycle_limit=5)\<close> yields an
  engine whose cycle limit is the string \<open>cycle_limit\<close>, not 5, and
  \<open>clone(input_function=f)\<close> one whose cycle limit is the string \<open>input_function\<close>
  and that has no input callback.
\<close>

theorem clone_passes_names_not_values:
  "(case Interpreter ''+'' (PyInt 0) PyNone PyNone PyNone of
      Inl e \<Rightarrow> None
    | Inr bp \<Rightarrow> Some (map_sum id cycle_limit (clone bp None (PyInt 5) PyNone PyNone PyNone),
                      map_sum id cycle_limit (clone bp None PyNone (PyFun (\<lambda>k. 65)) PyNone PyNone),
                      map_sum id input_function (clone bp None PyNone (PyFun (\<lambda>k. 65)) PyNone PyNone))) =
   Some (Inr (PyStr ''cycle_limit''), Inr (PyStr ''input_function''), Inr PyNone)"
  by (simp add: Interpreter_def clone_def find_functions_plus)

subsection \<open>The function table\<close>

lemma find_functions_27:
  "find_functions (''.'' @ concat (replicate 27 ''@.'')) = Inl (NameError ''functions'')"
  by code_simp

text \<open>
  Claim C9. A source with more than 26 \<open>@\<close> is refused when the engine is
  constructed. What the constructor raises for the source \<open>.@.@. ... @.\<close> with 27
  delimiters is not the exception written in \<open>find_functions\<close> (too many functions
  declared) but the \<open>NameError\<close> of building its message.
\<close>

theorem too_many_functions_raises_NameError:
  "Interpreter (''.'' @ concat (replicate 27 ''@.'')) (PyInt 0) PyNone PyNone PyNone =
     Inl (NameError ''functions'')"
  by (simp only: Interpreter_def find_functions_27 sum.case)

subsection \<open>What an instruction leaves alone\<close>

lemma same_settings_refl: "same_settings s s"
  by (simp add: same_settings_def)

lemma same_settings_trans:
  "same_settings s s1 \<Longrightarrow> same_settings s1 s2 \<Longrightarrow> same_settings s s2"
  by (simp add: same_settings_def)

lemma setitem_length: "setitem xs i v = Some ys \<Longrightarrow> length ys = length xs"
  by (auto simp: setitem_def Let_def split: if_splits)

lemma instr_print_settings: "same_settings s (engine_of (instr_print s))"
  by (simp add: instr_print_def same_settings_def split: option.split pyobj.split)

lemma instr_input_settings: "same_settings s (engine_of (instr_input s))"
  by (auto simp: instr_input_def Let_def same_settings_def setitem_length
      split: option.split pyobj.split)

lemma instr_inc_memory_pointer_settings:
  "same_settings s (engine_of (instr_inc_memory_pointer s))"
  by (simp add: instr_inc_memory_pointer_def Let_def same_settings_def)

lemma instr_dec_memory_pointer_settings:
  "same_settings s (engine_of (instr_dec_memory_pointer s))"
  by (simp add: instr_dec_memory_pointer_def Let_def same_settings_def)

lemma instr_inc_memory_settings: "same_settings s (engine_of (instr_inc_memory s))"
  by (auto simp: instr_inc_memory_def same_settings_def setitem_length split: option.split)

lemma instr_dec_memory_settings: "same_settings s (engine_of (instr_dec_memory s))"
  by (auto simp: instr_dec_memory_def same_settings_def setitem_length split: option.split)

lemma skip_to_loop_end_loop_settings:
  "same_settings s (engine_of (skip_to_loop_end_loop n s))"
proof (induction n s rule: skip_to_loop_end_loop.induct)
  case (1 bracket_cnt s)
  show ?case
  proof (cases "bracket_cnt > 0 \<and> instruction_pointer s < int (length (source s))")
    case False
    then show ?thesis
      by (subst skip_to_loop_end_loop.simps) (auto simp: same_settings_refl)
  next
    case True
    let ?s1 = "s\<lparr>instruction_pointer := instruction_pointer s + 1\<rparr>"
    have s1: "same_settings s ?s1"
      by (simp add: same_settings_def)
    show ?thesis
    proof (cases "getitem (source ?s1) (instruction_pointer ?s1)")
      case None
      then show ?thesis
        using True s1 by (subst skip_to_loop_end_loop.simps) (simp add: Let_def)
    next
      case (Some instruction)
      have "same_settings ?s1 (engine_of (skip_to_loop_end_loop
              (if instruction = CHR ''['' then bracket_cnt + 1
               else if instruction = CHR '']'' then bracket_cnt - 1 else bracket_cnt) ?s1))"
        using "1.IH" [OF True refl Some] .
      then have "same_settings s (engine_of (skip_to_loop_end_loop
              (if instruction = CHR ''['' then bracket_cnt + 1
               else if instruction = CHR '']'' then bracket_cnt - 1 else bracket_cnt) ?s1))"
        by (rule same_settings_trans [OF s1])
      then show ?thesis
        using True Some by (subst skip_to_loop_end_loop.simps) (simp add: Let_def)
    qed
  qed
qed

lemma instr_loop_start_settings: "same_settings s (engine_of (instr_loop_start s))"
  using skip_to_loop_end_loop_settings [of s 1]
  by (cases "skip_to_loop_end_loop 1 s")
     (simp_all add: instr_loop_start_def skip_to_loop_end_def same_settings_def split: option.split)

lemma instr_loop_end_settings: "same_settings s (engine_of (instr_loop_end s))"
  by (simp add: instr_loop_end_def Let_def same_settings_def split: option.split prod.split)

lemma instr_function_call_settings: "same_settings s (engine_of (instr_function_call c s))"
  unfolding instr_function_call_def Let_def
  by (simp add: same_settings_def split: option.split if_split)

lemma instr_return_settings: "same_settings s (engine_of (instr_return s))"
  by (simp add: instr_return_eq same_settings_def)

lemma handler_settings:
  assumes "instruction_dict c = Some h"
  shows "same_settings s (engine_of (h c s))"
proof -
  consider "c = CHR ''.''" | "c = CHR '',''" | "c = CHR ''>''" | "c = CHR ''<''" | "c = CHR ''+''"
    | "c = CHR ''-''" | "c = CHR ''[''" | "c = CHR '']''" | "c = CHR ''@''"
    | "c \<notin> set ''.,><+-[]@''" "is_call_letter c"
    using assms by (auto simp: instruction_dict_def split: if_splits)
  then show ?thesis
  proof cases
    case 10
    then show ?thesis
      using assms by (simp add: instruction_dict_def instr_function_call_settings)
  qed (use assms in \<open>auto simp: instruction_dict_def instr_print_settings instr_input_settings
        instr_inc_memory_pointer_settings instr_dec_memory_pointer_settings
        instr_inc_memory_settings instr_dec_memory_settings instr_loop_start_settings
        instr_loop_end_settings instr_return_settings\<close>)
qed

lemma execute_instruction_settings:
  "same_settings s (engine_of (execute_instruction c s))"
proof (cases "instruction_dict c")
  case None
  then show ?thesis by (simp add: execute_instruction_def same_settings_refl)
next
  case (Some h)
  show ?thesis
    using handler_settings [OF Some, of s]
    by (cases "h c s") (simp_all add: execute_instruction_def Some same_settings_def split: pyobj.split)
qed


subsection \<open>The cycle limit\<close>

lemma run_limited:
  assumes "cycle_limit s = PyInt n" and "0 < n" and "cycle_count s \<le> n"
  shows "\<exists>r. run s = Some r \<and> cycle_count s \<le> cycle_count (engine_of r) \<and>
           cycle_count (engine_of r) \<le> n \<and>
           (raised r \<noteq> None \<longrightarrow> cycle_count (engine_of r) < n)"
  using assms
proof (induction "nat (n - cycle_count s)" arbitrary: s rule: less_induct)
  case less
  show ?case
  proof (cases "instruction_pointer s < int (length (source s)) \<and> \<not> need_to_exit s")
    case False
    then have "run s = Some (Ok s)"
      by (subst run.simps) auto
    then show ?thesis
      using less.prems by simp
  next
    case running: True
    show ?thesis
    proof (cases "cycle_count s \<ge> n")
      case True
      then have "run s = Some (Ok (s\<lparr>printed := printed s @ [''Ending early due to cycle limit'']\<rparr>))"
        using running less.prems by (subst run.simps) (simp add: cycle_limit_reached_def)
      then show ?thesis
        using less.prems by simp
    next
      case below: False
      have reached: "cycle_limit_reached s = Inr False"
        using below less.prems by (simp add: cycle_limit_reached_def)
      show ?thesis
      proof (cases "getitem (source s) (instruction_pointer s)")
        case None
        then have "run s = Some (Raise IndexError s)"
          using running reached by (subst run.simps) simp
        then show ?thesis
          using below less.prems by simp
      next
        case (Some instruction)
        have keeps: "same_settings s (engine_of (execute_instruction instruction s))"
          by (rule execute_instruction_settings)
        show ?thesis
        proof (cases "execute_instruction instruction s")
          case (Raise e s1)
          then have "run s = Some (Raise e s1)"
            using running reached Some by (subst run.simps) simp
          moreover have "cycle_count s1 = cycle_count s"
            using keeps Raise by (simp add: same_settings_def)
          ultimately show ?thesis
            using below by simp
        next
          case (Ok s1)
          let ?s2 = "s1\<lparr>cycle_count := cycle_count s1 + 1\<rparr>"
          have step: "run s = run ?s2"
            using running reached Some Ok by (subst run.simps) simp
          have s1: "cycle_count s1 = cycle_count s" "cycle_limit s1 = cycle_limit s"
            using keeps Ok by (simp_all add: same_settings_def)
          have "\<exists>r. run ?s2 = Some r \<and> cycle_count ?s2 \<le> cycle_count (engine_of r) \<and>
                  cycle_count (engine_of r) \<le> n \<and>
                  (raised r \<noteq> None \<longrightarrow> cycle_count (engine_of r) < n)"
          proof (rule less.hyps)
            show "nat (n - cycle_count ?s2) < nat (n - cycle_count s)"
              using s1 below by simp
            show "cycle_limit ?s2 = PyInt n"
              using s1 less.prems by simp
            show "0 < n" by (rule less.prems)
            show "cycle_count ?s2 \<le> n"
              using s1 below by simp
          qed
          then show ?thesis
            using step s1 by auto
        qed
      qed
    qed
  qed
qed

lemma Interpreter_fresh:
  assumes "Interpreter src lim inp outp tr = Inr s0"
  shows "cycle_count s0 = 0 \<and> cycle_limit s0 = lim \<and> source s0 = src \<and> instruction_pointer s0 = 0 \<and>
         memory s0 = replicate memory_size 0 \<and> memory_pointer s0 = 0 \<and> stack s0 = [] \<and>
         input_function s0 = inp \<and> output_function s0 = outp \<and> on_execute s0 = tr"
  using assms by (auto simp: Interpreter_def split: sum.splits)

text \<open>
  Claim C6. With a cycle limit \<open>n > 0\<close>, \<open>run\<close> returns, whatever the source: from
  any engine whose cycle count is at most \<open>n\<close>, and so from every engine the
  constructor builds with that limit. The limit is tested before each fetch, so the
  cycle count (the number of instructions executed) never passes \<open>n\<close>; a run that
  ends on a fault has completed fewer than \<open>n\<close> instructions before the faulting one,
  so a run whose count has reached \<open>n\<close> has ended without error.
\<close>

theorem run_stops_at_cycle_limit:
  assumes "0 < n"
  shows "(cycle_limit s = PyInt n \<and> cycle_count s \<le> n \<longrightarrow>
            (\<exists>r. run s = Some r \<and> cycle_count s \<le> cycle_count (engine_of r) \<and>
                 cycle_count (engine_of r) \<le> n \<and>
                 (raised r \<noteq> None \<longrightarrow> cycle_count (engine_of r) < n))) \<and>
         (Interpreter src (PyInt n) inp outp tr = Inr s0 \<longrightarrow>
            (\<exists>r. run s0 = Some r \<and> 0 \<le> cycle_count (engine_of r) \<and>
                 cycle_count (engine_of r) \<le> n \<and>
                 (raised r \<noteq> None \<longrightarrow> cycle_count (engine_of r) < n)))"
proof (intro conjI impI)
  assume "cycle_limit s = PyInt n \<and> cycle_count s \<le> n"
  then show "\<exists>r. run s = Some r \<and> cycle_count s \<le> cycle_count (engine_of r) \<and>
                 cycle_count (engine_of r) \<le> n \<and>
                 (raised r \<noteq> None \<longrightarrow> cycle_count (engine_of r) < n)"
    using run_limited [of s n] assms by simp
next
  assume "Interpreter src (PyInt n) inp outp tr = Inr s0"
  then have "cycle_count s0 = 0" "cycle_limit s0 = PyInt n"
    using Interpreter_fresh by blast+
  then show "\<exists>r. run s0 = Some r \<and> 0 \<le> cycle_count (engine_of r) \<and>
                 cycle_count (engine_of r) \<le> n \<and>
                 (raised r \<noteq> None \<longrightarrow> cycle_count (engine_of r) < n)"
    using run_limited [of s0 n] assms by simp
qed

lemma find_functions_loop_forever: "find_functions ''+[]'' = Inr []"
  by code_simp

text \<open>
  \<open>+[]\<close> loops for ever without a limit. With the limit 5 the run ends after 5
  instructions, without error, in front of the \<open>[\<close>.
\<close>

theorem run_stops_at_cycle_limit_witness:
  "(0::int) < 5 \<and>
   cycle_limit ((example_engine ''+[]'' [] 0 [] 0)\<lparr>cycle_limit := PyInt 5\<rparr>) = PyInt 5 \<and>
   cycle_count ((example_engine ''+[]'' [] 0 [] 0)\<lparr>cycle_limit := PyInt 5\<rparr>) \<le> 5 \<and>
   (\<exists>r. run ((example_engine ''+[]'' [] 0 [] 0)\<lparr>cycle_limit := PyInt 5\<rparr>) = Some r \<and>
        cycle_count (engine_of r) \<le> 5) \<and>
   map_option (\<lambda>r. (raised r, cycle_count (engine_of r), instruction_pointer (engine_of r)))
     (run ((example_engine ''+[]'' [] 0 [] 0)\<lparr>cycle_limit := PyInt 5\<rparr>)) = Some (None, 5, 1) \<and>
   Interpreter ''+[]'' (PyInt 5) PyNone PyNone PyNone =
     Inr ((example_engine ''+[]'' [] 0 [] 0)\<lparr>cycle_limit := PyInt 5, memory := replicate memory_size 0\<rparr>) \<and>
   (\<exists>r. run ((example_engine ''+[]'' [] 0 [] 0)\<lparr>cycle_limit := PyInt 5, memory := replicate memory_size 0\<rparr>) = Some r \<and>
        cycle_count (engine_of r) \<le> 5)"
proof -
  have pos: "(0::int) < 5" by simp
  have built: "Interpreter ''+[]'' (PyInt 5) PyNone PyNone PyNone =
     Inr ((example_engine ''+[]'' [] 0 [] 0)\<lparr>cycle_limit := PyInt 5, memory := replicate memory_size 0\<rparr>)"
    by (simp add: Interpreter_def find_functions_loop_forever example_engine_def)
  have computed: "map_option (\<lambda>r. (raised r, cycle_count (engine_of r), instruction_pointer (engine_of r)))
     (run ((example_engine ''+[]'' [] 0 [] 0)\<lparr>cycle_limit := PyInt 5\<rparr>)) = Some (None, 5, 1)"
    by (simp add: run.simps execute_instruction_def instruction_dict_def is_call_letter_def
      instr_inc_memory_def instr_loop_start_def instr_loop_end_def Stack_pop_eq Stack_push_def
      getitem_def setitem_def cycle_limit_reached_def example_engine_def
      memory_size_def max_memory_value_def)
  show ?thesis
    using pos built computed
      run_stops_at_cycle_limit [OF pos,
        of "(example_engine ''+[]'' [] 0 [] 0)\<lparr>cycle_limit := PyInt 5\<rparr>"
           "''+[]''" PyNone PyNone PyNone
           "(example_engine ''+[]'' [] 0 [] 0)\<lparr>cycle_limit := PyInt 5, memory := replicate memory_size 0\<rparr>"]
    by (auto simp: example_engine_def)
qed


subsection \<open>The tape invariant\<close>

lemma getitem_in_set: "getitem xs i = Some v \<Longrightarrow> v \<in> set xs"
  by (auto simp: getitem_def Let_def split: if_splits)

lemma setitem_list_all:
  assumes "setitem xs i v = Some ys" and "list_all P xs" and "P v"
  shows "list_all P ys"
proof -
  obtain j where "ys = xs[j := v]"
    using assms(1) by (auto simp: setitem_def Let_def split: if_splits)
  then show ?thesis
    using assms(2,3) set_update_subset_insert [of xs j v] by (auto simp: list_all_iff)
qed

lemma skip_to_loop_end_loop_moves_ip:
  "\<exists>p. engine_of (skip_to_loop_end_loop n s) = s\<lparr>instruction_pointer := p\<rparr>"
proof (induction n s rule: skip_to_loop_end_loop.induct)
  case (1 bracket_cnt s)
  show ?case
  proof (cases "bracket_cnt > 0 \<and> instruction_pointer s < int (length (source s))")
    case False
    then have "skip_to_loop_end_loop bracket_cnt s = Ok s"
      by (subst skip_to_loop_end_loop.simps) auto
    then have "engine_of (skip_to_loop_end_loop bracket_cnt s) =
        s\<lparr>instruction_pointer := instruction_pointer s\<rparr>"
      by simp
    then show ?thesis ..
  next
    case True
    let ?s1 = "s\<lparr>instruction_pointer := instruction_pointer s + 1\<rparr>"
    show ?thesis
    proof (cases "getitem (source ?s1) (instruction_pointer ?s1)")
      case None
      then have "skip_to_loop_end_loop bracket_cnt s = Raise IndexError ?s1"
        using True by (subst skip_to_loop_end_loop.simps) (simp add: Let_def)
      then have "engine_of (skip_to_loop_end_loop bracket_cnt s) = ?s1"
        by simp
      then show ?thesis ..
    next
      case (Some instruction)
      let ?n = "if instruction = CHR ''['' then bracket_cnt + 1
               else if instruction = CHR '']'' then bracket_cnt - 1 else bracket_cnt"
      obtain p where "engine_of (skip_to_loop_end_loop ?n ?s1) = ?s1\<lparr>instruction_pointer := p\<rparr>"
        using "1.IH" [OF True refl Some] by blast
      moreover have "skip_to_loop_end_loop bracket_cnt s = skip_to_loop_end_loop ?n ?s1"
        using True Some by (subst skip_to_loop_end_loop.simps) (simp add: Let_def)
      ultimately have "engine_of (skip_to_loop_end_loop bracket_cnt s) = s\<lparr>instruction_pointer := p\<rparr>"
        by simp
      then show ?thesis ..
    qed
  qed
qed

lemma instr_print_tape:
  "memory (engine_of (instr_print s)) = memory s \<and>
   memory_pointer (engine_of (instr_print s)) = memory_pointer s"
  by (simp add: instr_print_def split: option.split pyobj.split)

lemma instr_loop_start_tape:
  "memory (engine_of (instr_loop_start s)) = memory s \<and>
   memory_pointer (engine_of (instr_loop_start s)) = memory_pointer s"
proof -
  obtain p where p: "engine_of (skip_to_loop_end_loop 1 s) = s\<lparr>instruction_pointer := p\<rparr>"
    using skip_to_loop_end_loop_moves_ip by blast
  show ?thesis
    using p by (cases "skip_to_loop_end_loop 1 s")
      (simp_all add: instr_loop_start_def skip_to_loop_end_def split: option.split)
qed

lemma instr_loop_end_tape:
  "memory (engine_of (instr_loop_end s)) = memory s \<and>
   memory_pointer (engine_of (instr_loop_end s)) = memory_pointer s"
  by (simp add: instr_loop_end_def Let_def split: option.split prod.split)

lemma instr_function_call_tape:
  "memory (engine_of (instr_function_call c s)) = memory s \<and>
   memory_pointer (engine_of (instr_function_call c s)) = memory_pointer s"
  unfolding instr_function_call_def Let_def
  by (simp split: option.split if_split)

lemma instr_return_tape:
  "memory (engine_of (instr_return s)) = memory s \<and>
   memory_pointer (engine_of (instr_return s)) = memory_pointer s"
  by (simp add: instr_return_eq)

lemma tape_invariant_cong:
  "memory s' = memory s \<and> memory_pointer s' = memory_pointer s \<Longrightarrow>
   tape_invariant s \<Longrightarrow> tape_invariant s'"
  by (simp add: tape_invariant_def)

lemma instr_input_invariant:
  assumes "tape_invariant s" and "\<forall>f k. input_function s = PyFun f \<longrightarrow> 0 \<le> f k \<and> f k \<le> 255"
  shows "tape_invariant (engine_of (instr_input s))"
proof (cases "input_function s")
  case (PyFun f)
  have ok: "0 \<le> f (inputs_read s) \<and> f (inputs_read s) \<le> 255"
    using assms(2) PyFun by blast
  show ?thesis
  proof (cases "setitem (memory s) (memory_pointer s) (f (inputs_read s))")
    case None
    then show ?thesis
      using assms(1) PyFun by (simp add: instr_input_def Let_def tape_invariant_def)
  next
    case (Some m)
    have "list_all (\<lambda>v. 0 \<le> v \<and> v \<le> 255) m"
      using setitem_list_all [OF Some, of "\<lambda>v. 0 \<le> v \<and> v \<le> 255"] assms(1) ok
      by (simp add: tape_invariant_def)
    then show ?thesis
      using assms(1) PyFun Some setitem_length [OF Some]
      by (simp add: instr_input_def Let_def tape_invariant_def)
  qed
qed (use assms(1) in \<open>simp_all add: instr_input_def tape_invariant_def\<close>)

lemma instr_inc_memory_pointer_invariant:
  "tape_invariant s \<Longrightarrow> tape_invariant (engine_of (instr_inc_memory_pointer s))"
  by (simp add: instr_inc_memory_pointer_def Let_def tape_invariant_def)

lemma instr_dec_memory_pointer_invariant:
  "tape_invariant s \<Longrightarrow> tape_invariant (engine_of (instr_dec_memory_pointer s))"
  by (auto simp: instr_dec_memory_pointer_def Let_def tape_invariant_def)

lemma instr_inc_memory_invariant:
  assumes "tape_invariant s"
  shows "tape_invariant (engine_of (instr_inc_memory s))"
proof (cases "getitem (memory s) (memory_pointer s)")
  case None
  then show ?thesis using assms by (simp add: instr_inc_memory_def)
next
  case (Some v)
  have v: "0 \<le> v \<and> v \<le> 255"
    using getitem_in_set [OF Some] assms by (simp add: tape_invariant_def list_all_iff)
  let ?w = "if v < max_memory_value then v + 1 else 0"
  have w: "0 \<le> ?w \<and> ?w \<le> 255"
    using v by (simp add: max_memory_value_def)
  show ?thesis
  proof (cases "setitem (memory s) (memory_pointer s) ?w")
    case None
    then show ?thesis using assms Some by (simp add: instr_inc_memory_def)
  next
    case (Some m)
    have "list_all (\<lambda>v. 0 \<le> v \<and> v \<le> 255) m"
      using setitem_list_all [OF Some, of "\<lambda>v. 0 \<le> v \<and> v \<le> 255"] assms w
      by (simp add: tape_invariant_def)
    then show ?thesis
      using assms \<open>getitem (memory s) (memory_pointer s) = Some v\<close> Some setitem_length [OF Some]
      by (simp add: instr_inc_memory_def tape_invariant_def)
  qed
qed

lemma instr_dec_memory_invariant:
  assumes "tape_invariant s"
  shows "tape_invariant (engine_of (instr_dec_memory s))"
proof (cases "getitem (memory s) (memory_pointer s)")
  case None
  then show ?thesis using assms by (simp add: instr_dec_memory_def)
next
  case (Some v)
  have v: "0 \<le> v \<and> v \<le> 255"
    using getitem_in_set [OF Some] assms by (simp add: tape_invariant_def list_all_iff)
  let ?w = "if v > 0 then v - 1 else max_memory_value"
  have w: "0 \<le> ?w \<and> ?w \<le> 255"
    using v by (simp add: max_memory_value_def)
  show ?thesis
  proof (cases "setitem (memory s) (memory_pointer s) ?w")
    case None
    then show ?thesis using assms Some by (simp add: instr_dec_memory_def)
  next
    case (Some m)
    have "list_all (\<lambda>v. 0 \<le> v \<and> v \<le> 255) m"
      using setitem_list_all [OF Some, of "\<lambda>v. 0 \<le> v \<and> v \<le> 255"] assms w
      by (simp add: tape_invariant_def)
    then show ?thesis
      using assms \<open>getitem (memory s) (memory_pointer s) = Some v\<close> Some setitem_length [OF Some]
      by (simp add: instr_dec_memory_def tape_invariant_def)
  qed
qed

lemma handler_invariant:
  assumes "instruction_dict c = Some h" and "tape_invariant s"
    and "\<forall>f k. input_function s = PyFun f \<longrightarrow> 0 \<le> f k \<and> f k \<le> 255"
  shows "tape_invariant (engine_of (h c s))"
proof -
  consider "c = CHR ''.''" | "c = CHR '',''" | "c = CHR ''>''" | "c = CHR ''<''" | "c = CHR ''+''"
    | "c = CHR ''-''" | "c = CHR ''[''" | "c = CHR '']''" | "c = CHR ''@''"
    | "c \<notin> set ''.,><+-[]@''" "is_call_letter c"
    using assms(1) by (auto simp: instruction_dict_def split: if_splits)
  then show ?thesis
  proof cases
    case 1
    then have "h = (\<lambda>instruction. instr_print)"
      using assms(1) by (simp add: instruction_dict_def)
    then show ?thesis
      using tape_invariant_cong [OF instr_print_tape assms(2)] by simp
  next
    case 2
    then have "h = (\<lambda>instruction. instr_input)"
      using assms(1) by (simp add: instruction_dict_def)
    then show ?thesis
      using instr_input_invariant [OF assms(2,3)] by simp
  next
    case 3
    then have "h = (\<lambda>instruction. instr_inc_memory_pointer)"
      using assms(1) by (simp add: instruction_dict_def)
    then show ?thesis
      using instr_inc_memory_pointer_invariant [OF assms(2)] by simp
  next
    case 4
    then have "h = (\<lambda>instruction. instr_dec_memory_pointer)"
      using assms(1) by (simp add: instruction_dict_def)
    then show ?thesis
      using instr_dec_memory_pointer_invariant [OF assms(2)] by simp
  next
    case 5
    then have "h = (\<lambda>instruction. instr_inc_memory)"
      using assms(1) by (simp add: instruction_dict_def)
    then show ?thesis
      using instr_inc_memory_invariant [OF assms(2)] by simp
  next
    case 6
    then have "h = (\<lambda>instruction. instr_dec_memory)"
      using assms(1) by (simp add: instruction_dict_def)
    then show ?thesis
      using instr_dec_memory_invariant [OF assms(2)] by simp
  next
    case 7
    then have "h = (\<lambda>instruction. instr_loop_start)"
      using assms(1) by (simp add: instruction_dict_def)
    then show ?thesis
      using tape_invariant_cong [OF instr_loop_start_tape assms(2)] by simp
  next
    case 8
    then have "h = (\<lambda>instruction. instr_loop_end)"
      using assms(1) by (simp add: instruction_dict_def)
    then show ?thesis
      using tape_invariant_cong [OF instr_loop_end_tape assms(2)] by simp
  next
    case 9
    then have "h = (\<lambda>instruction. instr_return)"
      using assms(1) by (simp add: instruction_dict_def)
    then show ?thesis
      using tape_invariant_cong [OF instr_return_tape assms(2)] by simp
  next
    case 10
    then have "h = instr_function_call"
      using assms(1) by (simp add: instruction_dict_def)
    then show ?thesis
      using tape_invariant_cong [OF instr_function_call_tape assms(2)] by simp
  qed
qed

lemma execute_instruction_invariant:
  assumes "tape_invariant s"
    and "\<forall>f k. input_function s = PyFun f \<longrightarrow> 0 \<le> f k \<and> f k \<le> 255"
  shows "tape_invariant (engine_of (execute_instruction c s))"
proof (cases "instruction_dict c")
  case None
  then show ?thesis using assms(1) by (simp add: execute_instruction_def)
next
  case (Some h)
  show ?thesis
    using handler_invariant [OF Some assms]
    by (cases "h c s")
       (simp_all add: execute_instruction_def Some tape_invariant_def split: pyobj.split)
qed

lemma run_invariant_step:
  assumes "run s = Some r"
  shows "tape_invariant s \<longrightarrow>
         (\<forall>f k. input_function s = PyFun f \<longrightarrow> 0 \<le> f k \<and> f k \<le> 255) \<longrightarrow>
         tape_invariant (engine_of r) \<and> length (memory (engine_of r)) = length (memory s)"
proof (rule run.raw_induct [OF _ assms], goal_cases)
  case (1 run' s r)
  note IH = 1(1) and body = 1(2)
  show ?case
  proof (intro impI)
    assume inv0: "tape_invariant s"
      and inp0: "\<forall>f k. input_function s = PyFun f \<longrightarrow> 0 \<le> f k \<and> f k \<le> 255"
    show "tape_invariant (engine_of r) \<and> length (memory (engine_of r)) = length (memory s)"
    proof (cases "instruction_pointer s < int (length (source s)) \<and> \<not> need_to_exit s")
      case False
      then have "r = Ok s" using body by auto
      then show ?thesis using inv0 by simp
    next
      case running: True
      show ?thesis
      proof (cases "cycle_limit_reached s")
        case (Inl e)
        then have "r = Raise e s" using running body by auto
        then show ?thesis using inv0 by simp
      next
        case (Inr reached)
        show ?thesis
        proof (cases reached)
          case True
          then have "r = Ok (s\<lparr>printed := printed s @ [''Ending early due to cycle limit'']\<rparr>)"
            using running Inr body by auto
          then show ?thesis using inv0 by (simp add: tape_invariant_def)
        next
          case False
          show ?thesis
          proof (cases "getitem (source s) (instruction_pointer s)")
            case None
            then have "r = Raise IndexError s" using running Inr False body by auto
            then show ?thesis using inv0 by simp
          next
            case (Some instruction)
            have inv: "tape_invariant (engine_of (execute_instruction instruction s))"
              by (rule execute_instruction_invariant [OF inv0 inp0])
            have keeps: "same_settings s (engine_of (execute_instruction instruction s))"
              by (rule execute_instruction_settings)
            show ?thesis
            proof (cases "execute_instruction instruction s")
              case (Raise e s1)
              then have "r = Raise e s1" using running Inr False Some body by auto
              then show ?thesis using inv keeps Raise by (simp add: same_settings_def)
            next
              case (Ok s1)
              let ?s2 = "s1\<lparr>cycle_count := cycle_count s1 + 1\<rparr>"
              have "run' ?s2 = Some r"
                using running Inr False Some Ok body by simp
              moreover have "tape_invariant ?s2"
                using inv Ok by (simp add: tape_invariant_def)
              moreover have "\<forall>f k. input_function ?s2 = PyFun f \<longrightarrow> 0 \<le> f k \<and> f k \<le> 255"
                using keeps Ok inp0 by (simp add: same_settings_def)
              moreover have "length (memory ?s2) = length (memory s)"
                using keeps Ok by (simp add: same_settings_def)
              ultimately show ?thesis
                using IH [of ?s2 r] by simp
            qed
          qed
        qed
      qed
    qed
  qed
qed

lemma Interpreter_invariant:
  assumes "Interpreter src lim inp outp tr = Inr s0"
  shows "tape_invariant s0 \<and> length (memory s0) = memory_size"
  using Interpreter_fresh [OF assms]
  by (simp add: tape_invariant_def memory_size_def list_all_iff)

lemma example_engine_invariant:
  "tape_invariant (example_engine src fs ip st cell) = (0 \<le> cell \<and> cell \<le> 255)"
proof -
  have "cell \<in> set ((replicate memory_size 0)[0 := cell])"
    by (rule set_update_memI) (simp add: memory_size_def)
  moreover have "set ((replicate memory_size 0)[0 := cell]) \<subseteq> insert cell (set (replicate memory_size (0::int)))"
    by (rule set_update_subset_insert)
  ultimately show ?thesis
    by (auto simp: tape_invariant_def example_engine_def list_all_iff memory_size_def)
qed

text \<open>
  Claim C7. Take an engine whose tape satisfies the invariant and whose input callback,
  if there is one, only returns values from 0 to 255. Then the invariant holds after
  every instruction, whatever the character dispatched and whether or not it raises,
  and the tape keeps its size; so it holds for the engine \<open>run\<close> leaves behind. The
  constructor establishes it, with \<open>memory_size\<close> cells. At the bounds: \<open>>\<close> on the
  last cell leaves the pointer where it is, \<open><\<close> on the first cell leaves it at 0,
  \<open>+\<close> takes a cell from 255 to 0 and \<open>-\<close> takes it from 0 to 255.
\<close>

theorem tape_invariant_holds:
  assumes "tape_invariant s"
    and "\<forall>f k. input_function s = PyFun f \<longrightarrow> 0 \<le> f k \<and> f k \<le> 255"
  shows "tape_invariant (engine_of (execute_instruction c s)) \<and>
    length (memory (engine_of (execute_instruction c s))) = length (memory s) \<and>
    (\<forall>r. run s = Some r \<longrightarrow>
       tape_invariant (engine_of r) \<and> length (memory (engine_of r)) = length (memory s)) \<and>
    (Interpreter src lim inp outp tr = Inr s0 \<longrightarrow>
       tape_invariant s0 \<and> length (memory s0) = memory_size) \<and>
    (memory_pointer s = int (length (memory s)) - 1 \<longrightarrow>
       memory_pointer (engine_of (instr_inc_memory_pointer s)) = memory_pointer s) \<and>
    (memory_pointer s = 0 \<longrightarrow>
       memory_pointer (engine_of (instr_dec_memory_pointer s)) = 0) \<and>
    (memory s ! nat (memory_pointer s) = 255 \<longrightarrow>
       memory (engine_of (instr_inc_memory s)) ! nat (memory_pointer s) = 0) \<and>
    (memory s ! nat (memory_pointer s) = 0 \<longrightarrow>
       memory (engine_of (instr_dec_memory s)) ! nat (memory_pointer s) = 255)"
proof -
  have mp: "0 \<le> memory_pointer s" "memory_pointer s < int (length (memory s))"
    using assms(1) by (simp_all add: tape_invariant_def)
  have cell: "getitem (memory s) (memory_pointer s) = Some (memory s ! nat (memory_pointer s))"
    using mp by (rule getitem_in_range)
  have store: "setitem (memory s) (memory_pointer s) v = Some ((memory s)[nat (memory_pointer s) := v])" for v
    using mp by (simp add: setitem_def)
  have step: "tape_invariant (engine_of (execute_instruction c s))"
    by (rule execute_instruction_invariant [OF assms])
  have len: "length (memory (engine_of (execute_instruction c s))) = length (memory s)"
    using execute_instruction_settings [of s c] by (simp add: same_settings_def)
  have whole: "\<forall>r. run s = Some r \<longrightarrow>
       tape_invariant (engine_of r) \<and> length (memory (engine_of r)) = length (memory s)"
    using run_invariant_step assms by blast
  have fresh: "Interpreter src lim inp outp tr = Inr s0 \<longrightarrow>
       tape_invariant s0 \<and> length (memory s0) = memory_size"
    using Interpreter_invariant by blast
  have top: "memory_pointer s = int (length (memory s)) - 1 \<longrightarrow>
       memory_pointer (engine_of (instr_inc_memory_pointer s)) = memory_pointer s"
    by (simp add: instr_inc_memory_pointer_def Let_def)
  have bottom: "memory_pointer s = 0 \<longrightarrow>
       memory_pointer (engine_of (instr_dec_memory_pointer s)) = 0"
    by (simp add: instr_dec_memory_pointer_def Let_def)
  have up: "memory s ! nat (memory_pointer s) = 255 \<longrightarrow>
       memory (engine_of (instr_inc_memory s)) ! nat (memory_pointer s) = 0"
    using mp by (simp add: instr_inc_memory_def cell store max_memory_value_def)
  have down: "memory s ! nat (memory_pointer s) = 0 \<longrightarrow>
       memory (engine_of (instr_dec_memory s)) ! nat (memory_pointer s) = 255"
    using mp by (simp add: instr_dec_memory_def cell store max_memory_value_def)
  show ?thesis
    using step len whole fresh top bottom up down by blast
qed

text \<open>
  An engine on the first cell, which holds 255, with an input callback that always
  answers 65: reading input keeps the invariant, \<open><\<close> stays at 0, \<open>+\<close> wraps to 0.
\<close>

theorem tape_invariant_holds_witness:
  "tape_invariant ((example_engine '',+'' [] 0 [] 255)\<lparr>input_function := PyFun (\<lambda>k. 65)\<rparr>) \<and>
   input_function ((example_engine '',+'' [] 0 [] 255)\<lparr>input_function := PyFun (\<lambda>k. 65)\<rparr>) = PyFun (\<lambda>k. 65) \<and>
   tape_invariant (engine_of (execute_instruction (CHR '','')
     ((example_engine '',+'' [] 0 [] 255)\<lparr>input_function := PyFun (\<lambda>k. 65)\<rparr>))) \<and>
   memory_pointer (engine_of (instr_dec_memory_pointer
     ((example_engine '',+'' [] 0 [] 255)\<lparr>input_function := PyFun (\<lambda>k. 65)\<rparr>))) = 0 \<and>
   memory (engine_of (instr_inc_memory
     ((example_engine '',+'' [] 0 [] 255)\<lparr>input_function := PyFun (\<lambda>k. 65)\<rparr>))) ! 0 = 0"
proof -
  let ?s = "(example_engine '',+'' [] 0 [] 255)\<lparr>input_function := PyFun (\<lambda>k. 65)\<rparr>"
  have inv: "tape_invariant ?s"
    using example_engine_invariant [of "'',+''" "[]" 0 "[]" 255]
    by (simp add: tape_invariant_def)
  have inp: "\<forall>f k. input_function ?s = PyFun f \<longrightarrow> 0 \<le> f k \<and> f k \<le> 255"
    by auto
  have at: "memory_pointer ?s = 0" "memory ?s ! nat (memory_pointer ?s) = 255"
    by (simp_all add: example_engine_def memory_size_def)
  show ?thesis
    using inv at tape_invariant_holds [OF inv inp, of "CHR '',''"]
    by simp
qed


subsection \<open>Loop start\<close>

lemma bracket_depth_append:
  "bracket_depth (xs @ ys) = bracket_depth xs + bracket_depth ys"
  by (induction xs) simp_all

lemma bracket_depth_take_Suc:
  "m < length xs \<Longrightarrow>
   bracket_depth (take (Suc m) xs) = bracket_depth (take m xs) + bracket_depth [xs ! m]"
  by (simp add: take_Suc_conv_app_nth bracket_depth_append)

lemma getitem_next:
  assumes "0 \<le> ip" and "nat ip + 1 < length xs"
  shows "getitem xs (ip + 1) = Some (xs ! (nat ip + 1))"
proof -
  have "ip + 1 < int (length xs)"
    using assms by linarith
  moreover have "nat (ip + 1) = nat ip + 1"
    using assms(1) by linarith
  ultimately show ?thesis
    using assms(1) getitem_in_range [of "ip + 1" xs] by simp
qed

lemma skip_loop_stops:
  assumes "0 < cnt" and "0 \<le> instruction_pointer s"
    and "m < length (drop (nat (instruction_pointer s) + 1) (source s))"
    and "cnt + bracket_depth (take (Suc m) (drop (nat (instruction_pointer s) + 1) (source s))) = 0"
    and "\<forall>k \<le> m. 0 < cnt + bracket_depth (take k (drop (nat (instruction_pointer s) + 1) (source s)))"
  shows "skip_to_loop_end_loop cnt s =
           Ok (s\<lparr>instruction_pointer := instruction_pointer s + 1 + int m\<rparr>)"
  using assms
proof (induction m arbitrary: cnt s)
  case 0
  let ?p = "nat (instruction_pointer s)"
  let ?rest = "drop (?p + 1) (source s)"
  let ?s1 = "s\<lparr>instruction_pointer := instruction_pointer s + 1\<rparr>"
  have len: "?p + 1 < length (source s)"
    using "0.prems"(3) by simp
  have first: "?rest ! 0 = source s ! (?p + 1)"
    using len by simp
  have "cnt + bracket_depth [?rest ! 0] = 0"
    using "0.prems"(3,4) by (simp add: take_Suc_conv_app_nth)
  then have close: "source s ! (?p + 1) = CHR '']''" and one: "cnt = 1"
    using "0.prems"(1) first by (auto split: if_splits)
  have get: "getitem (source s) (instruction_pointer s + 1) = Some (CHR '']'')"
    using getitem_next [OF "0.prems"(2) len] close by simp
  have inside: "instruction_pointer s < int (length (source s))"
    using len "0.prems"(2) by linarith
  have "skip_to_loop_end_loop cnt s = skip_to_loop_end_loop 0 ?s1"
    using inside get one
    by (subst skip_to_loop_end_loop.simps) (simp add: Let_def)
  also have "\<dots> = Ok ?s1"
    by (subst skip_to_loop_end_loop.simps) simp
  finally show ?case by simp
next
  case (Suc m)
  let ?p = "nat (instruction_pointer s)"
  let ?rest = "drop (?p + 1) (source s)"
  let ?s1 = "s\<lparr>instruction_pointer := instruction_pointer s + 1\<rparr>"
  let ?c = "source s ! (?p + 1)"
  let ?cnt = "if ?c = CHR ''['' then cnt + 1 else if ?c = CHR '']'' then cnt - 1 else cnt"
  have len: "?p + 2 < length (source s)"
    using Suc.prems(3) by simp
  have rest: "?rest = ?c # drop (?p + 2) (source s)"
    using len by (simp add: Cons_nth_drop_Suc)
  have p1: "nat (instruction_pointer ?s1) + 1 = ?p + 2"
    using Suc.prems(2) by (simp add: nat_add_distrib)
  have cnt': "?cnt = cnt + bracket_depth [?c]"
    by simp
  have pos: "0 < ?cnt"
    using Suc.prems(5) [rule_format, of 1] rest by (simp split: if_splits)
  have get: "getitem (source s) (instruction_pointer s + 1) = Some ?c"
    using getitem_next [OF Suc.prems(2), of "source s"] len by simp
  have inside: "instruction_pointer s < int (length (source s))"
    using len Suc.prems(2) by linarith
  have step: "skip_to_loop_end_loop cnt s = skip_to_loop_end_loop ?cnt ?s1"
    using inside Suc.prems(1) get
    by (subst skip_to_loop_end_loop.simps) (simp add: Let_def)
  have "skip_to_loop_end_loop ?cnt ?s1 =
          Ok (?s1\<lparr>instruction_pointer := instruction_pointer ?s1 + 1 + int m\<rparr>)"
  proof (rule Suc.IH [OF pos])
    show "0 \<le> instruction_pointer ?s1"
      using Suc.prems(2) by simp
    show "m < length (drop (nat (instruction_pointer ?s1) + 1) (source ?s1))"
      using Suc.prems(3) Suc.prems(2) by (simp add: nat_add_distrib)
    show "?cnt + bracket_depth (take (Suc m) (drop (nat (instruction_pointer ?s1) + 1) (source ?s1))) = 0"
      using Suc.prems(4) rest unfolding p1 by (simp split: if_splits)
    show "\<forall>k \<le> m. 0 < ?cnt + bracket_depth (take k (drop (nat (instruction_pointer ?s1) + 1) (source ?s1)))"
    proof (intro allI impI)
      fix k assume "k \<le> m"
      then have "0 < cnt + bracket_depth (take (Suc k) ?rest)"
        using Suc.prems(5) by simp
      then show "0 < ?cnt + bracket_depth (take k (drop (nat (instruction_pointer ?s1) + 1) (source ?s1)))"
        using rest unfolding p1 by (simp split: if_splits)
    qed
  qed
  then show ?case
    using step by simp
qed

lemma getitem_at_length: "getitem xs (int (length xs)) = None"
  by (simp add: getitem_def)

lemma skip_loop_overruns:
  assumes "0 < cnt" and "0 \<le> instruction_pointer s"
    and "nat (instruction_pointer s) < length (source s)"
    and "\<forall>k \<le> length (drop (nat (instruction_pointer s) + 1) (source s)).
           0 < cnt + bracket_depth (take k (drop (nat (instruction_pointer s) + 1) (source s)))"
  shows "skip_to_loop_end_loop cnt s =
           Raise IndexError (s\<lparr>instruction_pointer := int (length (source s))\<rparr>)"
  using assms
proof (induction "length (drop (nat (instruction_pointer s) + 1) (source s))" arbitrary: cnt s)
  case 0
  let ?s1 = "s\<lparr>instruction_pointer := instruction_pointer s + 1\<rparr>"
  have last: "instruction_pointer s + 1 = int (length (source s))"
    using "0.hyps" "0.prems"(2,3) by simp
  have inside: "instruction_pointer s < int (length (source s))"
    using last by simp
  have get: "getitem (source s) (instruction_pointer s + 1) = None"
    unfolding last by (rule getitem_at_length)
  have "skip_to_loop_end_loop cnt s = Raise IndexError ?s1"
    using inside "0.prems"(1) get
    by (subst skip_to_loop_end_loop.simps) (simp add: Let_def)
  then show ?case
    using last by simp
next
  case (Suc n)
  let ?p = "nat (instruction_pointer s)"
  let ?rest = "drop (?p + 1) (source s)"
  let ?s1 = "s\<lparr>instruction_pointer := instruction_pointer s + 1\<rparr>"
  let ?c = "source s ! (?p + 1)"
  let ?cnt = "if ?c = CHR ''['' then cnt + 1 else if ?c = CHR '']'' then cnt - 1 else cnt"
  have len: "?p + 1 < length (source s)"
    using Suc.hyps(2) by simp
  have rest: "?rest = ?c # drop (?p + 2) (source s)"
    using len by (simp add: Cons_nth_drop_Suc)
  have p1: "nat (instruction_pointer ?s1) + 1 = ?p + 2"
    using Suc.prems(2) by (simp add: nat_add_distrib)
  have "1 \<le> length ?rest"
    using len by simp
  then have "0 < cnt + bracket_depth (take 1 ?rest)"
    using Suc.prems(4) by blast
  then have pos: "0 < ?cnt"
    using rest by (simp split: if_splits)
  have get: "getitem (source s) (instruction_pointer s + 1) = Some ?c"
    using getitem_next [OF Suc.prems(2), of "source s"] len by simp
  have inside: "instruction_pointer s < int (length (source s))"
    using Suc.prems(2,3) by linarith
  have step: "skip_to_loop_end_loop cnt s = skip_to_loop_end_loop ?cnt ?s1"
    using inside Suc.prems(1) get
    by (subst skip_to_loop_end_loop.simps) (simp add: Let_def)
  have "skip_to_loop_end_loop ?cnt ?s1 =
          Raise IndexError (?s1\<lparr>instruction_pointer := int (length (source ?s1))\<rparr>)"
  proof (rule Suc.hyps(1) [OF _ pos])
    show "n = length (drop (nat (instruction_pointer ?s1) + 1) (source ?s1))"
      using Suc.hyps(2) unfolding p1 by simp
    show "0 \<le> instruction_pointer ?s1"
      using Suc.prems(2) by simp
    show "nat (instruction_pointer ?s1) < length (source ?s1)"
      using len Suc.prems(2) by (simp add: nat_add_distrib)
    show "\<forall>k \<le> length (drop (nat (instruction_pointer ?s1) + 1) (source ?s1)).
            0 < ?cnt + bracket_depth (take k (drop (nat (instruction_pointer ?s1) + 1) (source ?s1)))"
    proof (intro allI impI)
      fix k assume "k \<le> length (drop (nat (instruction_pointer ?s1) + 1) (source ?s1))"
      then have "Suc k \<le> length ?rest"
        unfolding p1 using len by simp
      then have "0 < cnt + bracket_depth (take (Suc k) ?rest)"
        using Suc.prems(4) by blast
      then show "0 < ?cnt + bracket_depth (take k (drop (nat (instruction_pointer ?s1) + 1) (source ?s1)))"
        using rest unfolding p1 by (simp split: if_splits)
    qed
  qed
  then show ?case
    using step by simp
qed

lemma matching_bracket_scan:
  assumes "matching_bracket src i j"
  shows "j - i - 1 < length (drop (i + 1) src) \<and>
         1 + bracket_depth (take (Suc (j - i - 1)) (drop (i + 1) src)) = 0 \<and>
         (\<forall>k \<le> j - i - 1. 0 < 1 + bracket_depth (take k (drop (i + 1) src)))"
proof -
  let ?rest = "drop (i + 1) src" and ?m = "j - i - 1"
  have ij: "i < j" "j < length src" and close: "src ! j = CHR '']''"
    and zero: "bracket_depth (take ?m ?rest) = 0"
    and nonneg: "\<forall>m \<in> {..?m}. 0 \<le> bracket_depth (take m ?rest)"
    using assms by (simp_all add: matching_bracket_def)
  have m: "?m < length ?rest"
    using ij by simp
  have "?rest ! ?m = src ! j"
    using ij by simp
  then have "bracket_depth (take (Suc ?m) ?rest) = - 1"
    using bracket_depth_take_Suc [OF m] zero close by simp
  moreover have "\<forall>k \<le> ?m. 0 < 1 + bracket_depth (take k ?rest)"
  proof (intro allI impI)
    fix k assume "k \<le> ?m"
    then have "k \<in> {..?m}" by simp
    then have "0 \<le> bracket_depth (take k ?rest)"
      using nonneg by blast
    then show "0 < 1 + bracket_depth (take k ?rest)" by simp
  qed
  ultimately show ?thesis
    using m by simp
qed

lemma no_matching_bracket_scan:
  assumes "i < length src" and "src ! i = CHR ''[''"
    and "\<forall>j. \<not> matching_bracket src i j"
  shows "\<forall>k \<le> length (drop (i + 1) src). 0 < 1 + bracket_depth (take k (drop (i + 1) src))"
proof (rule ccontr)
  let ?rest = "drop (i + 1) src"
  let ?P = "\<lambda>k. k \<le> length ?rest \<and> 1 + bracket_depth (take k ?rest) \<le> 0"
  assume "\<not> (\<forall>k \<le> length ?rest. 0 < 1 + bracket_depth (take k ?rest))"
  then have "\<exists>k. ?P k"
    by (simp add: not_less) 
  then obtain k where k: "?P k" and least: "\<forall>k' < k. \<not> ?P k'"
    using exists_least_iff [of ?P] by blast
  have "k \<noteq> 0"
  proof
    assume "k = 0"
    then have "1 + bracket_depth (take 0 ?rest) \<le> 0"
      using k by simp
    then show False by simp
  qed
  then obtain m where km: "k = Suc m"
    by (cases k) auto
  have m: "m < length ?rest"
    using k km by simp
  have before: "\<forall>k' \<le> m. 0 \<le> bracket_depth (take k' ?rest)"
  proof (intro allI impI)
    fix k' assume "k' \<le> m"
    then have "\<not> ?P k'" and "k' \<le> length ?rest"
      using least km m by simp_all
    then show "0 \<le> bracket_depth (take k' ?rest)"
      by simp
  qed
  have step: "bracket_depth (take (Suc m) ?rest) = bracket_depth (take m ?rest) + bracket_depth [?rest ! m]"
    by (rule bracket_depth_take_Suc [OF m])
  have low: "bracket_depth (take (Suc m) ?rest) \<le> - 1"
    using k km by simp
  have "0 \<le> bracket_depth (take m ?rest)"
    using before by simp
  then have zero: "bracket_depth (take m ?rest) = 0" and close: "?rest ! m = CHR '']''"
    using step low by (auto split: if_splits)
  have "matching_bracket src i (i + 1 + m)"
    unfolding matching_bracket_def
    using assms(1,2) m zero close before by (simp add: add.commute)
  then show False
    using assms(3) by blast
qed

lemma instr_loop_start_taken:
  assumes "0 \<le> memory_pointer s" and "memory_pointer s < int (length (memory s))"
    and "memory s ! nat (memory_pointer s) \<noteq> 0"
  shows "instr_loop_start s =
           Ok (s\<lparr>stack := stack s @ [instruction_pointer s],
                 instruction_pointer := instruction_pointer s + 1\<rparr>)"
  using assms by (simp add: instr_loop_start_def getitem_in_range Stack_push_def)

lemma instr_loop_start_skipped:
  assumes "0 \<le> memory_pointer s" and "memory_pointer s < int (length (memory s))"
    and "memory s ! nat (memory_pointer s) = 0" and "0 \<le> instruction_pointer s"
    and "matching_bracket (source s) (nat (instruction_pointer s)) j"
  shows "instr_loop_start s = Ok (s\<lparr>instruction_pointer := int j + 1\<rparr>)"
proof -
  let ?i = "nat (instruction_pointer s)"
  note scan = matching_bracket_scan [OF assms(5)]
  have ij: "?i < j"
    using assms(5) by (simp add: matching_bracket_def)
  have "skip_to_loop_end_loop 1 s =
          Ok (s\<lparr>instruction_pointer := instruction_pointer s + 1 + int (j - ?i - 1)\<rparr>)"
    by (rule skip_loop_stops) (use scan assms(4) in simp_all)
  moreover have "instruction_pointer s + 1 + int (j - ?i - 1) = int j"
    using ij assms(4) by linarith
  ultimately have "skip_to_loop_end s = Ok (s\<lparr>instruction_pointer := int j\<rparr>)"
    by (simp add: skip_to_loop_end_def)
  then show ?thesis
    using assms(1-3) by (simp add: instr_loop_start_def getitem_in_range)
qed

lemma instr_loop_start_unmatched:
  assumes "0 \<le> memory_pointer s" and "memory_pointer s < int (length (memory s))"
    and "memory s ! nat (memory_pointer s) = 0" and "0 \<le> instruction_pointer s"
    and "nat (instruction_pointer s) < length (source s)"
    and "source s ! nat (instruction_pointer s) = CHR ''[''"
    and "\<forall>j. \<not> matching_bracket (source s) (nat (instruction_pointer s)) j"
  shows "instr_loop_start s =
           Raise IndexError (s\<lparr>instruction_pointer := int (length (source s))\<rparr>)"
proof -
  have "skip_to_loop_end_loop 1 s =
          Raise IndexError (s\<lparr>instruction_pointer := int (length (source s))\<rparr>)"
    by (rule skip_loop_overruns)
       (use no_matching_bracket_scan [OF assms(5-7)] assms(4,5) in simp_all)
  then show ?thesis
    using assms(1-3) by (simp add: instr_loop_start_def skip_to_loop_end_def getitem_in_range)
qed

text \<open>
  Claim C1. Take an engine with its memory pointer on the tape, at offset \<open>i\<close> of its
  source. If the current cell is 0 and the \<open>]\<close> at \<open>j\<close> matches the \<open>[\<close> at \<open>i\<close>,
  executing \<open>[\<close> leaves the instruction pointer at \<open>j + 1\<close> and nothing else changed:
  the scan, which starts at depth 1, stops exactly on \<open>j\<close>. If the current cell is
  not 0, it pushes \<open>i\<close> on the control stack and moves the instruction pointer to
  \<open>i + 1\<close>. The tape and the memory pointer are the same afterwards in every case.
\<close>

theorem instr_loop_start_spec:
  assumes "0 \<le> memory_pointer s" and "memory_pointer s < int (length (memory s))"
    and "0 \<le> instruction_pointer s"
  shows "(memory s ! nat (memory_pointer s) = 0 \<and>
          matching_bracket (source s) (nat (instruction_pointer s)) j \<longrightarrow>
            instr_loop_start s = Ok (s\<lparr>instruction_pointer := int j + 1\<rparr>)) \<and>
         (memory s ! nat (memory_pointer s) \<noteq> 0 \<longrightarrow>
            instr_loop_start s =
              Ok (s\<lparr>stack := stack s @ [instruction_pointer s],
                    instruction_pointer := instruction_pointer s + 1\<rparr>)) \<and>
         memory (engine_of (instr_loop_start s)) = memory s \<and>
         memory_pointer (engine_of (instr_loop_start s)) = memory_pointer s"
  using instr_loop_start_skipped [OF assms(1,2) _ assms(3), of j]
    instr_loop_start_taken [OF assms(1,2)] instr_loop_start_tape [of s]
  by blast

lemma matching_example: "matching_bracket ''[+[.]].'' 0 5"
  by code_simp

text \<open>
  In \<open>[+[.]].\<close> the \<open>]\<close> at offset 5 matches the \<open>[\<close> at offset 0. On a zero cell the
  \<open>[\<close> goes to offset 6, past the inner loop as well; on a cell holding 3 it pushes 0
  and goes to offset 1. A run from a zero cell executes two instructions only, and the
  trace callback sees the instruction pointers 6 and 7.
\<close>

theorem instr_loop_start_spec_witness:
  "matching_bracket ''[+[.]].'' 0 5 \<and>
   instr_loop_start (example_engine ''[+[.]].'' [] 0 [] 0) = Ok (example_engine ''[+[.]].'' [] 6 [] 0) \<and>
   instr_loop_start (example_engine ''[+[.]].'' [] 0 [] 3) = Ok (example_engine ''[+[.]].'' [] 1 [0] 3) \<and>
   map_option (\<lambda>r. map (\<lambda>(c, ip, mp). ip) (executed (engine_of r)))
     (run ((example_engine ''[+[.]].'' [] 0 [] 0)\<lparr>on_execute := PyFun (\<lambda>k. 0)\<rparr>)) = Some [6, 7]"
proof -
  have traced: "map_option (\<lambda>r. map (\<lambda>(c, ip, mp). ip) (executed (engine_of r)))
     (run ((example_engine ''[+[.]].'' [] 0 [] 0)\<lparr>on_execute := PyFun (\<lambda>k. 0)\<rparr>)) = Some [6, 7]"
    using instr_loop_start_spec [of "(example_engine ''[+[.]].'' [] 0 [] 0)\<lparr>on_execute := PyFun (\<lambda>k. 0)\<rparr>" 5]
      matching_example
    by (simp add: run.simps execute_instruction_def instruction_dict_def is_call_letter_def
      instr_print_def getitem_def cycle_limit_reached_def example_engine_def memory_size_def)
  show ?thesis
    using traced matching_example
      instr_loop_start_spec [of "example_engine ''[+[.]].'' [] 0 [] 0" 5]
      instr_loop_start_spec [of "example_engine ''[+[.]].'' [] 0 [] 3" 5]
    by (simp add: example_engine_def memory_size_def)
qed

text \<open>
  Claim C10. Take an engine at a \<open>[\<close> with the current cell 0, where no \<open>]\<close> of the
  source matches this \<open>[\<close>. Executing the \<open>[\<close> raises \<open>IndexError\<close>: the scan moves
  the instruction pointer to \<open>len(source)\<close>, one past the last character, and reads the
  source there. The fault passes through the dispatch and out of \<open>run\<close>, so the run
  does not end in the state where the source is merely exhausted.
\<close>

theorem unmatched_loop_start_overruns:
  assumes "0 \<le> memory_pointer s" and "memory_pointer s < int (length (memory s))"
    and "memory s ! nat (memory_pointer s) = 0" and "0 \<le> instruction_pointer s"
    and "nat (instruction_pointer s) < length (source s)"
    and "source s ! nat (instruction_pointer s) = CHR ''[''"
    and "\<forall>j. \<not> matching_bracket (source s) (nat (instruction_pointer s)) j"
  shows "instr_loop_start s =
           Raise IndexError (s\<lparr>instruction_pointer := int (length (source s))\<rparr>) \<and>
         execute_instruction (CHR ''['') s =
           Raise IndexError (s\<lparr>instruction_pointer := int (length (source s))\<rparr>) \<and>
         (\<not> need_to_exit s \<and> cycle_limit_reached s = Inr False \<longrightarrow>
            run s = Some (Raise IndexError (s\<lparr>instruction_pointer := int (length (source s))\<rparr>)))"
proof -
  have start: "instr_loop_start s =
           Raise IndexError (s\<lparr>instruction_pointer := int (length (source s))\<rparr>)"
    by (rule instr_loop_start_unmatched [OF assms])
  have ex: "execute_instruction (CHR ''['') s =
           Raise IndexError (s\<lparr>instruction_pointer := int (length (source s))\<rparr>)"
    by (simp add: execute_instruction_def instruction_dict_def start)
  have fetch: "getitem (source s) (instruction_pointer s) = Some (CHR ''['')"
    using getitem_in_range [of "instruction_pointer s" "source s"] assms(4-6) by simp
  have inside: "instruction_pointer s < int (length (source s))"
    using assms(4,5) by linarith
  have "run s = Some (Raise IndexError (s\<lparr>instruction_pointer := int (length (source s))\<rparr>))"
    if "\<not> need_to_exit s" and "cycle_limit_reached s = Inr False"
    using that inside fetch ex by (subst run.simps) simp
  then show ?thesis
    using start ex by blast
qed

lemma no_matching_example: "\<forall>j. \<not> matching_bracket ''[+'' 0 j"
proof (intro allI notI)
  fix j assume "matching_bracket ''[+'' 0 j"
  then have "0 < j" "j < 2" "''[+'' ! j = CHR '']''"
    by (simp_all add: matching_bracket_def)
  then have "j = 1" "''[+'' ! j = CHR '']''"
    by simp_all
  then show False by simp
qed

text \<open>The source \<open>[+\<close>, run from a zero cell.\<close>

theorem unmatched_loop_start_overruns_witness:
  "(\<forall>j. \<not> matching_bracket ''[+'' 0 j) \<and>
   source (example_engine ''[+'' [] 0 [] 0) ! nat (instruction_pointer (example_engine ''[+'' [] 0 [] 0)) = CHR ''['' \<and>
   instr_loop_start (example_engine ''[+'' [] 0 [] 0) = Raise IndexError (example_engine ''[+'' [] 2 [] 0) \<and>
   run (example_engine ''[+'' [] 0 [] 0) = Some (Raise IndexError (example_engine ''[+'' [] 2 [] 0))"
proof -
  let ?s = "example_engine ''[+'' [] 0 [] 0"
  have h: "0 \<le> memory_pointer ?s" "memory_pointer ?s < int (length (memory ?s))"
    "memory ?s ! nat (memory_pointer ?s) = 0" "0 \<le> instruction_pointer ?s"
    "nat (instruction_pointer ?s) < length (source ?s)"
    "source ?s ! nat (instruction_pointer ?s) = CHR ''[''"
    by (simp_all add: example_engine_def memory_size_def)
  have none: "\<forall>j. \<not> matching_bracket (source ?s) (nat (instruction_pointer ?s)) j"
    using no_matching_example by (simp add: example_engine_def)
  show ?thesis
    using no_matching_example unmatched_loop_start_overruns [OF h none]
    by (simp add: example_engine_def cycle_limit_reached_def)
qed


subsection \<open>What find_functions records\<close>

lemma find_char_takeWhile:
  "find_char c xs k =
     (if c \<in> set xs then k + int (length (takeWhile (\<lambda>x. x \<noteq> c) xs)) else - 1)"
  by (induction xs arbitrary: k) auto

lemma str_find_none:
  assumes "str_find src c start = - 1"
  shows "\<forall>i \<in> set [start..<length src]. src ! i \<noteq> c"
proof -
  have "c \<notin> set (drop start src)"
    using assms by (auto simp: str_find_def find_char_takeWhile split: if_splits)
  then show ?thesis
    by (auto simp: set_conv_nth)
qed

lemma str_find_some:
  assumes "0 \<le> str_find src c start"
  shows "start \<le> nat (str_find src c start) \<and> nat (str_find src c start) < length src \<and>
         src ! nat (str_find src c start) = c \<and>
         (\<forall>i \<in> set [start..<nat (str_find src c start)]. src ! i \<noteq> c)"
proof -
  let ?xs = "drop start src"
  let ?n = "length (takeWhile (\<lambda>x. x \<noteq> c) ?xs)"
  have mem: "c \<in> set ?xs"
    using assms by (auto simp: str_find_def find_char_takeWhile split: if_splits)
  then have k: "str_find src c start = int (start + ?n)"
    by (simp add: str_find_def find_char_takeWhile)
  have "takeWhile (\<lambda>x. x \<noteq> c) ?xs \<noteq> ?xs"
    using mem by (simp del: set_drop_subset)
  moreover have "takeWhile (\<lambda>x. x \<noteq> c) ?xs = take ?n ?xs"
    by (rule takeWhile_eq_take)
  ultimately have "?n \<noteq> length ?xs"
    by (metis take_all order_refl)
  then have n: "?n < length ?xs"
    using length_takeWhile_le [of "\<lambda>x. x \<noteq> c" ?xs] by linarith
  have at: "?xs ! ?n = c"
    using nth_length_takeWhile [OF n] by simp
  have before: "?xs ! i \<noteq> c" if "i < ?n" for i
  proof -
    have "takeWhile (\<lambda>x. x \<noteq> c) ?xs ! i \<in> set (takeWhile (\<lambda>x. x \<noteq> c) ?xs)"
      using that by simp
    then have "takeWhile (\<lambda>x. x \<noteq> c) ?xs ! i \<noteq> c"
      by (auto dest: set_takeWhileD)
    then show ?thesis
      using that by (simp add: takeWhile_nth)
  qed
  have "\<forall>i \<in> set [start..<start + ?n]. src ! i \<noteq> c"
  proof
    fix i assume "i \<in> set [start..<start + ?n]"
    then have "start \<le> i" "i - start < ?n" by auto
    then have "?xs ! (i - start) \<noteq> c" using before by blast
    then show "src ! i \<noteq> c"
      using \<open>start \<le> i\<close> n \<open>i - start < ?n\<close> by simp
  qed
  moreover have "src ! (start + ?n) = c"
    using at n by simp
  moreover have nk: "nat (str_find src c start) = start + ?n"
    unfolding k by (rule nat_int)
  ultimately show ?thesis
    using n unfolding nk by simp
qed

lemma delimiter_offsets_none:
  assumes "str_find src (CHR ''@'') start = - 1"
  shows "delimiter_offsets src start = []"
  using str_find_none [OF assms] by (simp add: delimiter_offsets_def filter_empty_conv)

lemma delimiter_offsets_some:
  assumes "0 \<le> str_find src (CHR ''@'') start"
  shows "delimiter_offsets src start =
           (str_find src (CHR ''@'') start + 1) #
           delimiter_offsets src (nat (str_find src (CHR ''@'') start + 1))"
proof -
  let ?k = "nat (str_find src (CHR ''@'') start)"
  note k = str_find_some [OF assms]
  have split: "[start..<length src] = [start..<?k] @ ?k # [Suc ?k..<length src]"
    using k by (metis le_add_diff_inverse upt_add_eq_append upt_conv_Cons le_eq_less_or_eq less_imp_le_nat)
  have none: "filter (\<lambda>i. src ! i = CHR ''@'') [start..<?k] = []"
    using k by (simp add: filter_empty_conv)
  have next_start: "nat (str_find src (CHR ''@'') start + 1) = Suc ?k"
    using assms by linarith
  have "int ?k = str_find src (CHR ''@'') start"
    using assms by simp
  then show ?thesis
    unfolding delimiter_offsets_def next_start split
    using k none by simp
qed

lemma find_functions_loop_offsets:
  "find_functions_loop src (str_find src (CHR ''@'') start) acc = acc @ delimiter_offsets src start"
proof (induction "length src - start" arbitrary: start acc rule: less_induct)
  case less
  show ?case
  proof (cases "0 \<le> str_find src (CHR ''@'') start")
    case False
    then have none: "str_find src (CHR ''@'') start = - 1"
      using str_find_bounds [of src "CHR ''@''" start] by linarith
    show ?thesis
      unfolding none delimiter_offsets_none [OF none]
      by (subst find_functions_loop.simps) simp
  next
    case True
    let ?k = "str_find src (CHR ''@'') start"
    note k = str_find_some [OF True]
    have smaller: "length src - nat (?k + 1) < length src - start"
      using k True by linarith
    have "find_functions_loop src ?k acc =
            find_functions_loop src (str_find src (CHR ''@'') (nat (?k + 1))) (acc @ [?k + 1])"
      using True by (subst find_functions_loop.simps) simp
    also have "\<dots> = (acc @ [?k + 1]) @ delimiter_offsets src (nat (?k + 1))"
      by (rule less.hyps [OF smaller])
    also have "\<dots> = acc @ delimiter_offsets src start"
      by (simp add: delimiter_offsets_some [OF True])
    finally show ?thesis .
  qed
qed

lemma find_functions_offsets:
  "find_functions src =
     (if 26 < length (delimiter_offsets src 0) then Inl (NameError ''functions'')
      else Inr (delimiter_offsets src 0))"
  using find_functions_loop_offsets [of src 0 "[]"]
  by (simp add: find_functions_def max_functions_def Let_def)

lemma delimiter_offsets_count:
  "length (delimiter_offsets src 0) = count_list src (CHR ''@'')"
proof -
  have "length (filter (\<lambda>i. src ! i = c) [0..<length src]) = count_list src c" for c
  proof (induction src rule: rev_induct)
    case Nil
    then show ?case by simp
  next
    case (snoc x xs)
    have "filter (\<lambda>i. (xs @ [x]) ! i = c) [0..<length xs] = filter (\<lambda>i. xs ! i = c) [0..<length xs]"
      by (rule filter_cong) (auto simp: nth_append)
    then show ?case
      using snoc by (simp add: nth_append)
  qed
  then show ?thesis
    by (simp add: delimiter_offsets_def)
qed

text \<open>
  The function table proper: with more than 26 delimiters the constructor raises (the
  \<open>NameError\<close> above, before any engine exists), otherwise it succeeds and the table
  holds the offset after each \<open>@\<close>, in source order.
\<close>

lemma Interpreter_function_table:
  "(26 < count_list src (CHR ''@'') \<longrightarrow>
      Interpreter src lim inp outp tr = Inl (NameError ''functions'')) \<and>
   (count_list src (CHR ''@'') \<le> 26 \<longrightarrow>
      (\<exists>s0. Interpreter src lim inp outp tr = Inr s0 \<and>
            functions' s0 = delimiter_offsets src 0))"
  by (simp add: Interpreter_def find_functions_offsets delimiter_offsets_count)


end
